theory Spec2Isabelle
  imports Main "HOL-Library.Multiset"
begin

section \<open>Python values used by \<open>utils/preprocessor.py\<close>\<close>

text \<open>
  The module under verification is the \<open>Preprocessor\<close> class of
  \<open>src/utils/preprocessor.py\<close>. Strings are \<open>string\<close> (a list of 8-bit
  characters, so the model speaks about ASCII text), Python integers are \<open>int\<close> or
  \<open>nat\<close> where the source can only produce a length or an index, and every exception the
  source can raise is a value of \<open>py_error\<close>, returned as \<open>Inl\<close>.
\<close>

datatype py_error =
    KeyError string
  | ValueError string
  | TypeError
  | IndexError
  | AttributeError
  | AssertionError
  | FileNotFoundError string
  | UnicodeDecodeError
  | UnpicklingError string

definition bind_err :: "'e + 'a \<Rightarrow> ('a \<Rightarrow> 'e + 'b) \<Rightarrow> 'e + 'b" where
  "bind_err m f = (case m of Inl e \<Rightarrow> Inl e | Inr x \<Rightarrow> f x)"

subsection \<open>Strings\<close>

definition newline :: char where
  "newline = CHR 0x0A"

text \<open>
  Iterating over a text file yields its lines, each with its terminating newline; only the
  last line may lack one. (The file content is the text as Python hands it over, after
  its translation of line endings to the newline character.)
\<close>

fun file_lines :: "string \<Rightarrow> string list" where
  "file_lines [] = []"
| "file_lines (c # cs) =
     (if c = newline then [c] # file_lines cs
      else (case file_lines cs of
              [] \<Rightarrow> [[c]]
            | l # ls \<Rightarrow> (c # l) # ls))"

text \<open>\<open>str.lower()\<close>, on ASCII.\<close>

definition lower_char :: "char \<Rightarrow> char" where
  "lower_char c =
     (let n = (of_char c :: nat) in if 65 \<le> n \<and> n \<le> 90 then char_of (n + 32) else c)"

definition lower :: "string \<Rightarrow> string" where
  "lower s = map lower_char s"

text \<open>
  \<open>s.split(" > ")\<close>: the string is cut at the occurrences of the separator, found from
  left to right without overlap; the result always has at least one element.
\<close>

definition sep :: string where
  "sep = '' > ''"

function split_sep :: "string \<Rightarrow> string list" where
  "split_sep [] = [[]]"
| "split_sep (c # cs) =
     (if take 3 (c # cs) = sep then [] # split_sep (drop 3 (c # cs))
      else (case split_sep cs of
              [] \<Rightarrow> [[c]]
            | l # ls \<Rightarrow> (c # l) # ls))"
  by pat_completeness auto
termination
  by (relation "measure length") auto

subsection \<open>Sets and dictionaries\<close>

text \<open>
  A Python \<open>set\<close> of strings is kept as the list of its elements in the order of their
  first insertion. That order is not what iteration follows: \<open>list(s)\<close> walks the hash
  table, and the hash of a \<open>str\<close> is salted per process. The iteration order is therefore
  a parameter \<open>set_order\<close> of the model, applied to the insertion sequence; Python fixes
  only that it lists every element exactly once (\<open>iteration_ok\<close>) and that it does not
  change while the set is not modified.
\<close>

type_synonym pyset = "string list"

definition set_add :: "string \<Rightarrow> pyset \<Rightarrow> pyset" where
  "set_add x s = (if x \<in> set s then s else s @ [x])"

definition iteration_ok :: "(string list \<Rightarrow> string list) \<Rightarrow> bool" where
  "iteration_ok order = (\<forall>xs. distinct xs \<longrightarrow> mset (order xs) = mset xs)"

text \<open>
  A \<open>dict\<close> keeps its keys in insertion order: an association list in which storing
  under an existing key replaces the value in place and a new key goes to the end.
\<close>

type_synonym ('k, 'v) pydict = "('k \<times> 'v) list"

fun dict_set :: "'k \<Rightarrow> 'v \<Rightarrow> ('k, 'v) pydict \<Rightarrow> ('k, 'v) pydict" where
  "dict_set k v [] = [(k, v)]"
| "dict_set k v ((k', v') # d) = (if k' = k then (k, v) # d else (k', v') # dict_set k v d)"

definition dict_get :: "(string, 'v) pydict \<Rightarrow> string \<Rightarrow> py_error + 'v" where
  "dict_get d k = (case map_of d k of None \<Rightarrow> Inl (KeyError k) | Some v \<Rightarrow> Inr v)"

definition keys :: "('k, 'v) pydict \<Rightarrow> 'k list" where
  "keys d = map fst d"

text \<open>\<open>xs.index(x)\<close>: the first position of \<open>x\<close>, or \<open>ValueError\<close>.\<close>

fun first_index :: "'a list \<Rightarrow> 'a \<Rightarrow> nat option" where
  "first_index [] x = None"
| "first_index (y # ys) x =
     (if y = x then Some 0 else map_option Suc (first_index ys x))"

definition list_index :: "string list \<Rightarrow> string \<Rightarrow> py_error + nat" where
  "list_index xs x = (case first_index xs x of None \<Rightarrow> Inl (ValueError x) | Some i \<Rightarrow> Inr i)"

text \<open>
  \<open>xs[i] = v\<close> on a list: a negative index counts from the end, an index out of range
  raises \<open>IndexError\<close>.
\<close>

definition list_setitem :: "'a list \<Rightarrow> int \<Rightarrow> 'a \<Rightarrow> py_error + 'a list" where
  "list_setitem xs i v =
     (let n = int (length xs); j = (if i < 0 then n + i else i)
      in if 0 \<le> j \<and> j < n then Inr (xs[nat j := v]) else Inl IndexError)"

text \<open>\<open>xs[i]\<close> with a non-negative index.\<close>

definition getitem :: "'a list \<Rightarrow> nat \<Rightarrow> py_error + 'a" where
  "getitem xs i = (if i < length xs then Inr (xs ! i) else Inl IndexError)"

text \<open>A loop whose body can raise: the first exception ends it.\<close>

fun fold_err :: "('a \<Rightarrow> 's \<Rightarrow> 'e + 's) \<Rightarrow> 'a list \<Rightarrow> 's \<Rightarrow> 'e + 's" where
  "fold_err f [] s = Inr s"
| "fold_err f (x # xs) s = bind_err (f x s) (fold_err f xs)"

section \<open>\<open>generate_hierarchy_segment\<close>\<close>

type_synonym hierarchy = "(string, pyset) pydict"

text \<open>\<open>nodes = path[:-1].lower().split(" > ")\<close>\<close>

definition nodes_of :: "string \<Rightarrow> string list" where
  "nodes_of path = split_sep (lower (butlast path))"

text \<open>
  The body of the \<open>try\<close>/\<open>except\<close>: add to the parent's set, and on the
  \<open>KeyError\<close> of a parent not yet seen store an empty set first.
\<close>

definition add_child :: "string \<Rightarrow> string \<Rightarrow> hierarchy \<Rightarrow> hierarchy" where
  "add_child parent node d =
     (case map_of d parent of
        Some s \<Rightarrow> dict_set parent (set_add node s) d
      | None \<Rightarrow> dict_set parent (set_add node []) d)"

text \<open>The loop \<open>for depth, node in enumerate(nodes)\<close> with its guard \<open>depth > 0\<close>.\<close>

definition add_path :: "string list \<Rightarrow> hierarchy \<Rightarrow> hierarchy" where
  "add_path nodes d =
     fold (\<lambda>(depth, node) d'.
             if depth > 0 then add_child (nodes ! (depth - 1)) node d' else d')
          (enumerate 0 nodes) d"

text \<open>The loop \<open>for path in tree\<close> over the lines of the opened file.\<close>

definition segment_lines :: "string list \<Rightarrow> hierarchy" where
  "segment_lines tree = fold (\<lambda>path d. add_path (nodes_of path) d) tree []"

section \<open>The input table\<close>

text \<open>
  The \<open>DataFrame\<close> handed to the class: the column names and the rows, every row as
  wide as the header (\<open>frame_ok\<close>). A cell holds text, an integer or nothing.
\<close>

datatype cell = CStr string | CInt int | CNaN

record dataframe =
  columns :: "string list"
  rows :: "cell list list"

definition frame_ok :: "dataframe \<Rightarrow> bool" where
  "frame_ok df =
     (distinct (columns df) \<and> list_all (\<lambda>r. length r = length (columns df)) (rows df))"

definition dropna :: "dataframe \<Rightarrow> dataframe" where
  "dropna df = df\<lparr>rows := filter (\<lambda>r. CNaN \<notin> set r) (rows df)\<rparr>"

text \<open>\<open>df[name]\<close>: the cells of a column, or \<open>KeyError\<close>.\<close>

definition df_column :: "dataframe \<Rightarrow> string \<Rightarrow> py_error + cell list" where
  "df_column df name =
     (case first_index (columns df) name of
        None \<Rightarrow> Inl (KeyError name)
      | Some i \<Rightarrow> Inr (map (\<lambda>r. r ! i) (rows df)))"

text \<open>\<open>df[name] = values\<close>: a new column goes last, an existing one is overwritten.\<close>

definition df_setitem :: "dataframe \<Rightarrow> string \<Rightarrow> cell list \<Rightarrow> dataframe" where
  "df_setitem df name vals =
     (case first_index (columns df) name of
        None \<Rightarrow> df\<lparr>columns := columns df @ [name],
                     rows := map (\<lambda>(r, v). r @ [v]) (zip (rows df) vals)\<rparr>
      | Some i \<Rightarrow> df\<lparr>rows := map (\<lambda>(r, v). r[i := v]) (zip (rows df) vals)\<rparr>)"

text \<open>\<open>Series.unique()\<close>: the distinct values in the order of their first appearance.\<close>

definition unique :: "'a list \<Rightarrow> 'a list" where
  "unique xs = fold (\<lambda>x acc. if x \<in> set acc then acc else acc @ [x]) xs []"

fun map_err :: "('a \<Rightarrow> 'e + 'b) \<Rightarrow> 'a list \<Rightarrow> 'e + 'b list" where
  "map_err f [] = Inr []"
| "map_err f (x # xs) =
     bind_err (f x) (\<lambda>y. bind_err (map_err f xs) (\<lambda>ys. Inr (y # ys)))"

subsection \<open>Conversions of a cell\<close>

definition is_space :: "char \<Rightarrow> bool" where
  "is_space c = (let n = (of_char c :: nat) in (9 \<le> n \<and> n \<le> 13) \<or> (28 \<le> n \<and> n \<le> 32))"

definition is_digit :: "char \<Rightarrow> bool" where
  "is_digit c = (let n = (of_char c :: nat) in 48 \<le> n \<and> n \<le> 57)"

function str_nat :: "nat \<Rightarrow> string" where
  "str_nat n =
     (if n < 10 then [char_of (48 + n)] else str_nat (n div 10) @ [char_of (48 + n mod 10)])"
  by pat_completeness auto
termination
  by (relation "measure id") auto

declare str_nat.simps [simp del]

text \<open>\<open>str(x)\<close>\<close>

fun py_str :: "cell \<Rightarrow> string" where
  "py_str (CStr s) = s"
| "py_str (CInt i) = (if i < 0 then CHR ''-'' # str_nat (nat (- i)) else str_nat (nat i))"
| "py_str CNaN = ''nan''"

text \<open>
  The whitespace that \<open>int\<close> skips around the digits of an ASCII \<open>str\<close>: the
  characters 9 to 13 and the blank, without the separators 28 to 31 that \<open>str.split\<close>
  also takes for whitespace.
\<close>

definition is_int_space :: "char \<Rightarrow> bool" where
  "is_int_space c = (let n = (of_char c :: nat) in (9 \<le> n \<and> n \<le> 13) \<or> n = 32)"

definition int_strip :: "string \<Rightarrow> string" where
  "int_strip s = rev (dropWhile is_int_space (rev (dropWhile is_int_space s)))"

fun no_double_underscore :: "string \<Rightarrow> bool" where
  "no_double_underscore (a # b # cs) =
     (\<not> (a = CHR ''_'' \<and> b = CHR ''_'') \<and> no_double_underscore (b # cs))"
| "no_double_underscore cs = True"

definition valid_digits :: "string \<Rightarrow> bool" where
  "valid_digits s =
     (s \<noteq> [] \<and> is_digit (hd s) \<and> is_digit (last s) \<and>
      list_all (\<lambda>c. is_digit c \<or> c = CHR ''_'') s \<and> no_double_underscore s)"

definition digits_value :: "string \<Rightarrow> nat" where
  "digits_value s =
     fold (\<lambda>c acc. if c = CHR ''_'' then acc else 10 * acc + (of_char c - 48)) s 0"

text \<open>
  \<open>int(x)\<close>. Of a \<open>str\<close>: optional whitespace, an optional sign, decimal digits
  that single underscores may separate, optional whitespace; more than 4300 digits (the
  default of \<open>sys.int_max_str_digits\<close>) are refused.
\<close>

fun py_int :: "cell \<Rightarrow> py_error + int" where
  "py_int (CInt i) = Inr i"
| "py_int CNaN = Inl (ValueError ''nan'')"
| "py_int (CStr s) =
     (let t = int_strip s;
          neg = (t \<noteq> [] \<and> hd t = CHR ''-'');
          body = (if t \<noteq> [] \<and> (hd t = CHR ''-'' \<or> hd t = CHR ''+'') then tl t else t)
      in if valid_digits body \<and> length (filter is_digit body) \<le> 4300
         then Inr (if neg then - int (digits_value body) else int (digits_value body))
         else Inl (ValueError s))"

text \<open>\<open>x.lower()\<close>, a method of \<open>str\<close> only.\<close>

fun cell_lower :: "cell \<Rightarrow> py_error + string" where
  "cell_lower (CStr s) = Inr (lower s)"
| "cell_lower c = Inl AttributeError"

text \<open>\<open>s.split()\<close>: the words between runs of whitespace.\<close>

fun split_ws :: "string \<Rightarrow> string list" where
  "split_ws [] = []"
| "split_ws (c # cs) =
     (if is_space c then split_ws cs
      else if cs = [] \<or> is_space (hd cs) then [c] # split_ws cs
      else (case split_ws cs of
              [] \<Rightarrow> [[c]]
            | l # ls \<Rightarrow> (c # l) # ls))"

section \<open>Datasets and the random generator\<close>

text \<open>
  A \<open>TensorDataset\<close> pairs the rows of two tensors; a \<open>Subset\<close> is a dataset seen
  through a list of indices. \<open>examples\<close> lists what indexing a dataset returns, and
  \<open>base_indices\<close> the rows of the underlying \<open>TensorDataset\<close> these are.
\<close>

datatype torch_dataset =
    TensorDataset "int list list" "nat list list"
  | Subset torch_dataset "nat list"

fun len :: "torch_dataset \<Rightarrow> nat" where
  "len (TensorDataset a b) = length a"
| "len (Subset d indices) = length indices"

fun examples :: "torch_dataset \<Rightarrow> (int list \<times> nat list) list" where
  "examples (TensorDataset a b) = zip a b"
| "examples (Subset d indices) = map (\<lambda>i. examples d ! i) indices"

fun base_indices :: "torch_dataset \<Rightarrow> nat list" where
  "base_indices (TensorDataset a b) = [0..<length a]"
| "base_indices (Subset d indices) = map (\<lambda>i. base_indices d ! i) indices"

text \<open>
  What the interpreter and the libraries decide, and the model leaves open: the iteration
  order of a set (above), and \<open>torch.randperm\<close>, which draws a permutation of
  \<open>0..n-1\<close> from the generator state \<open>'g\<close> and advances it.
\<close>

record 'g runtime =
  set_order :: "string list \<Rightarrow> string list"
  randperm :: "nat \<Rightarrow> 'g \<Rightarrow> nat list \<times> 'g"

definition randperm_ok :: "(nat \<Rightarrow> 'g \<Rightarrow> nat list \<times> 'g) \<Rightarrow> bool" where
  "randperm_ok rp = (\<forall>n g. mset (fst (rp n g)) = mset [0..<n])"

text \<open>\<open>torch.tensor(xss)\<close> of a list of lists: the rows must be equally long.\<close>

definition torch_tensor :: "'a list list \<Rightarrow> py_error + 'a list list" where
  "torch_tensor xss =
     (if list_all (\<lambda>xs. length xs = length (hd xss)) xss then Inr xss
      else Inl (ValueError ''expected sequence of equal length''))"

definition tensor_dataset :: "int list list \<Rightarrow> nat list list \<Rightarrow> py_error + torch_dataset" where
  "tensor_dataset a b = (if length a = length b then Inr (TensorDataset a b) else Inl AssertionError)"

fun accumulate :: "int list \<Rightarrow> int list" where
  "accumulate [] = []"
| "accumulate (x # xs) = x # map (\<lambda>y. x + y) (accumulate xs)"

text \<open>\<open>xs[a:b]\<close> for bounds that are not negative.\<close>

definition slice :: "'a list \<Rightarrow> nat \<Rightarrow> nat \<Rightarrow> 'a list" where
  "slice xs a b = take (b - a) (drop a xs)"

text \<open>
  \<open>torch.utils.data.random_split(dataset, lengths)\<close> with integer lengths: one
  permutation of all indices, cut into consecutive pieces.
\<close>

definition random_split ::
  "'g runtime \<Rightarrow> torch_dataset \<Rightarrow> int list \<Rightarrow> 'g \<Rightarrow> py_error + (torch_dataset list \<times> 'g)" where
  "random_split rt ds lengths g =
     (if sum_list lengths \<noteq> int (len ds)
      then Inl (ValueError ''Sum of input lengths does not equal the length of the input dataset!'')
      else (case randperm rt (nat (sum_list lengths)) g of
              (indices, g') \<Rightarrow>
                Inr (map (\<lambda>(offset, length).
                            Subset ds (slice indices (nat (offset - length)) (nat offset)))
                         (zip (accumulate lengths) lengths), g')))"

section \<open>\<open>round(len(...) * 0.8)\<close>: the floating-point arithmetic of the sizes\<close>

text \<open>
  A non-negative double is a pair \<open>(m, k)\<close> standing for \<open>m / 2 ^ k\<close>. A
  double has 53 significant bits, and every operation returns the exact result rounded to
  the nearest such value, ties to the even one (\<open>rnd\<close>). \<open>round(x)\<close> of Python
  returns the nearest integer, ties to the even one as well. The literals \<open>0.8\<close> and
  \<open>0.9\<close> are the doubles nearest to 4/5 and 9/10. (The sizes stay far below the
  overflow threshold, and a product of a positive length with 0.8 or 0.9 is far above the
  subnormal range.)
\<close>

type_synonym double = "nat \<times> nat"

fun bitlen :: "nat \<Rightarrow> nat" where
  "bitlen n = (if n = 0 then 0 else Suc (bitlen (n div 2)))"

declare bitlen.simps [simp del]

definition round_half_even :: "nat \<Rightarrow> nat \<Rightarrow> nat" where
  "round_half_even s m =
     (let q = m div 2 ^ s; r = m mod 2 ^ s
      in if 2 * r > 2 ^ s \<or> (2 * r = 2 ^ s \<and> odd q) then q + 1 else q)"

fun rnd :: "double \<Rightarrow> double" where
  "rnd (m, k) = (let s = bitlen m - 53 in (round_half_even s m * 2 ^ s, k))"

definition float_of_nat :: "nat \<Rightarrow> double" where
  "float_of_nat n = rnd (n, 0)"

fun fmul :: "double \<Rightarrow> double \<Rightarrow> double" where
  "fmul (m1, k1) (m2, k2) = rnd (m1 * m2, k1 + k2)"

fun py_round :: "double \<Rightarrow> nat" where
  "py_round (m, k) = round_half_even k m"

definition c08 :: double where
  "c08 = (7205759403792794, 53)"

definition c09 :: double where
  "c09 = (8106479329266893, 53)"

section \<open>\<open>data_splitting\<close>\<close>

definition data_splitting ::
  "'g runtime \<Rightarrow> int list list \<Rightarrow> nat list list \<Rightarrow> 'g \<Rightarrow>
     py_error + ((torch_dataset \<times> torch_dataset \<times> torch_dataset) \<times> 'g)" where
  "data_splitting rt input_ids target g =
     bind_err (torch_tensor input_ids) (\<lambda>input_ids.
     bind_err (torch_tensor target) (\<lambda>target.
     bind_err (tensor_dataset input_ids target) (\<lambda>tensor_dataset.
     let train_valid_size = py_round (fmul (float_of_nat (len tensor_dataset)) c08);
         test_size = int (len tensor_dataset) - int train_valid_size
     in bind_err (random_split rt tensor_dataset [int train_valid_size, test_size] g)
          (\<lambda>(parts, g1).
             case parts of
               [train_valid_set, test_set] \<Rightarrow>
                 (let train_size = py_round (fmul (float_of_nat (len train_valid_set)) c09);
                      valid_size = int (len train_valid_set) - int train_size
                  in bind_err (random_split rt train_valid_set [int train_size, valid_size] g1)
                       (\<lambda>(parts', g2).
                          case parts' of
                            [train_set, valid_set] \<Rightarrow> Inr ((train_set, valid_set, test_set), g2)
                          | _ \<Rightarrow> Inl (ValueError ''unpack'')))
             | _ \<Rightarrow> Inl (ValueError ''unpack'')))))"

section \<open>The class \<open>Preprocessor\<close> and the world it runs in\<close>

text \<open>
  The attributes set by \<open>__init__\<close>. Text cleaning (\<open>data_cleaning\<close>, which calls the
  stop-word list and the stemmer) and the BERT tokenizer are external: \<open>tokenizer\<close>
  stands for \<open>self.tokenizer(text=..., max_length=..., ...)['input_ids']\<close>.
\<close>

record Preprocessor =
  batch_size :: nat
  dataset :: dataframe
  num_classes :: nat
  hierarchy_tree :: string
  data_cleaning :: "string \<Rightarrow> string"
  tokenizer :: "string \<Rightarrow> nat \<Rightarrow> int list"

text \<open>
  The files by their paths (the directory \<open>datasets/\<close> is taken to exist), the
  state of the random generator and what was printed.
\<close>

datatype stored =
    Text string
  | Saved torch_dataset
  | Pickled "(torch_dataset \<times> torch_dataset \<times> torch_dataset) list"

record 'g world =
  files :: "(string, stored) pydict"
  rng :: 'g
  stdout :: "string list"

definition path_exists :: "'g world \<Rightarrow> string \<Rightarrow> bool" where
  "path_exists w p = (map_of (files w) p \<noteq> None)"

definition print :: "string \<Rightarrow> 'g world \<Rightarrow> 'g world" where
  "print s w = w\<lparr>stdout := stdout w @ [s]\<rparr>"

definition torch_load :: "'g world \<Rightarrow> string \<Rightarrow> py_error + torch_dataset" where
  "torch_load w p =
     (case map_of (files w) p of
        None \<Rightarrow> Inl (FileNotFoundError p)
      | Some (Saved d) \<Rightarrow> Inr d
      | Some _ \<Rightarrow> Inl (UnpicklingError p))"

definition torch_save :: "torch_dataset \<Rightarrow> string \<Rightarrow> 'g world \<Rightarrow> 'g world" where
  "torch_save d p w = w\<lparr>files := dict_set p (Saved d) (files w)\<rparr>"

text \<open>\<open>generate_hierarchy_segment\<close>: open the tree file and run the loop over its lines.\<close>

definition generate_hierarchy_segment :: "Preprocessor \<Rightarrow> 'g world \<Rightarrow> py_error + hierarchy" where
  "generate_hierarchy_segment self w =
     (case map_of (files w) (hierarchy_tree self) of
        None \<Rightarrow> Inl (FileNotFoundError (hierarchy_tree self))
      | Some (Text tree) \<Rightarrow> Inr (segment_lines (file_lines tree))
      | Some _ \<Rightarrow> Inl UnicodeDecodeError)"

section \<open>\<open>get_max_length\<close>\<close>

definition get_max_length :: "dataframe \<Rightarrow> nat \<Rightarrow> py_error + nat" where
  "get_max_length ds extra_length =
     bind_err (map_err (\<lambda>data. bind_err (getitem data 0) (\<lambda>d. Inr (split_ws (py_str d))))
                 (rows ds))
       (\<lambda>sentences_token.
          let token_length = map length sentences_token
          in if token_length = [] then Inl (ValueError ''max() arg is an empty sequence'')
             else Inr (fold max token_length 0 + extra_length))"

section \<open>\<open>preprocessing_data\<close>\<close>

text \<open>
  An entry of \<open>segmented_by_hierarchy\<close>: the empty list it starts as, or the
  dictionary with the two lists \<open>'input_ids'\<close> and \<open>'hierarchical_target'\<close>.
\<close>

datatype bucket = PyList | PyDict "int list list" "nat list list"

text \<open>
  Lines 123 to 128: the children of the parent as a list, the position of the child in it,
  and the vector with a single 1 there.
\<close>

definition hierarchical_binary ::
  "'g runtime \<Rightarrow> hierarchy \<Rightarrow> string \<Rightarrow> string \<Rightarrow> py_error + nat list" where
  "hierarchical_binary rt segmented_parent_child node child =
     bind_err (dict_get segmented_parent_child node) (\<lambda>s.
       let child_of_parent = set_order rt s
       in bind_err (list_index child_of_parent child) (\<lambda>child_idx.
            Inr ((replicate (length child_of_parent) 0)[child_idx := 1])))"

text \<open>Lines 132 to 136: the bucket becomes a dictionary on first use, then grows.\<close>

definition add_example ::
  "bucket list \<Rightarrow> nat \<Rightarrow> int list \<Rightarrow> nat list \<Rightarrow> py_error + bucket list" where
  "add_example segmented_by_hierarchy parent_idx input_ids hb =
     bind_err (getitem segmented_by_hierarchy parent_idx) (\<lambda>b.
       case b of
         PyList \<Rightarrow> Inr (segmented_by_hierarchy[parent_idx := PyDict [input_ids] [hb]])
       | PyDict ids tgt \<Rightarrow>
           Inr (segmented_by_hierarchy[parent_idx := PyDict (ids @ [input_ids]) (tgt @ [hb])]))"

text \<open>The inner loop \<open>for depth, node in enumerate(nodes[:-1])\<close> of one sample.\<close>

definition walk_path ::
  "'g runtime \<Rightarrow> hierarchy \<Rightarrow> (string, nat) pydict \<Rightarrow> int list \<Rightarrow> string list \<Rightarrow>
     bucket list \<Rightarrow> py_error + bucket list" where
  "walk_path rt segmented_parent_child parents_idx input_ids nodes segmented_by_hierarchy =
     fold_err (\<lambda>(depth, node) segs.
                 bind_err (getitem nodes (depth + 1)) (\<lambda>child.
                 bind_err (hierarchical_binary rt segmented_parent_child node child) (\<lambda>hb.
                 bind_err (dict_get parents_idx node) (\<lambda>parent_idx.
                   add_example segs parent_idx input_ids hb))))
       (enumerate 0 (butlast nodes)) segmented_by_hierarchy"

text \<open>Lines 114 and 115: \<open>flat_binary = [0] * num_classes; flat_binary[int(data[4])] = 1\<close>\<close>

definition flat_binary :: "nat \<Rightarrow> cell list \<Rightarrow> py_error + nat list" where
  "flat_binary n data =
     bind_err (getitem data 4) (\<lambda>d. bind_err (py_int d) (\<lambda>i. list_setitem (replicate n 0) i 1))"

text \<open>The body of the loop over the rows, lines 113 to 139.\<close>

definition encode_row ::
  "Preprocessor \<Rightarrow> 'g runtime \<Rightarrow> hierarchy \<Rightarrow> (string, nat) pydict \<Rightarrow> nat \<Rightarrow> cell list \<Rightarrow>
     bucket list \<times> int list list \<times> nat list list \<Rightarrow>
     py_error + (bucket list \<times> int list list \<times> nat list list)" where
  "encode_row self rt segmented_parent_child parents_idx max_length data st =
     (case st of (segmented_by_hierarchy, flat_input_ids, flat_target) \<Rightarrow>
        bind_err (getitem data 0) (\<lambda>d0.
          let name = data_cleaning self (py_str d0)
          in bind_err (flat_binary (num_classes self) data) (\<lambda>fb.
               let token = tokenizer self name max_length
               in bind_err (getitem data 3) (\<lambda>path.
                  bind_err (cell_lower path) (\<lambda>lowered.
                  bind_err (walk_path rt segmented_parent_child parents_idx token
                              (split_sep lowered) segmented_by_hierarchy) (\<lambda>segs.
                    Inr (segs, flat_input_ids @ [token], flat_target @ [fb])))))))"

text \<open>Lines 143 to 148: every bucket is read as a dictionary and split.\<close>

definition split_buckets ::
  "'g runtime \<Rightarrow> bucket list \<Rightarrow> 'g \<Rightarrow>
     py_error + ((torch_dataset \<times> torch_dataset \<times> torch_dataset) list \<times> 'g)" where
  "split_buckets rt segmented_by_hierarchy g =
     fold_err (\<lambda>data (hierarchical_dataset, g').
                 case data of
                   PyList \<Rightarrow> Inl TypeError
                 | PyDict hierarchical_input_ids hierarchical_target \<Rightarrow>
                     bind_err (data_splitting rt hierarchical_input_ids hierarchical_target g')
                       (\<lambda>(sets, g''). Inr (hierarchical_dataset @ [sets], g'')))
       segmented_by_hierarchy ([], g)"

definition label_index :: "cell list \<Rightarrow> cell \<Rightarrow> py_error + cell" where
  "label_index labels_idx x =
     (case first_index labels_idx x of
        None \<Rightarrow> Inl (ValueError (py_str x))
      | Some i \<Rightarrow> Inr (CInt (int i)))"

text \<open>
  Lines 100 to 103: drop the incomplete rows, number the distinct leaves in the order of
  their first appearance, and store the number of each row's leaf in the column
  \<open>'label_idx'\<close>.
\<close>

definition index_labels :: "dataframe \<Rightarrow> py_error + dataframe" where
  "index_labels ds0 =
     (let ds1 = dropna ds0
      in bind_err (df_column ds1 ''leaf'') (\<lambda>leaf.
         let labels_idx = unique leaf
         in bind_err (map_err (label_index labels_idx) leaf) (\<lambda>label_idx.
              Inr (df_setitem ds1 ''label_idx'' label_idx))))"

text \<open>Line 106: \<open>{parent: index for index, parent in enumerate(....keys())}\<close>\<close>

definition index_parents :: "hierarchy \<Rightarrow> (string, nat) pydict" where
  "index_parents segmented_parent_child =
     fold (\<lambda>(index, parent) d. dict_set parent index d)
       (enumerate 0 (keys segmented_parent_child)) []"

definition preprocessing_data ::
  "Preprocessor \<Rightarrow> 'g runtime \<Rightarrow> dataframe \<Rightarrow> 'g world \<Rightarrow>
     py_error + ((torch_dataset \<times> torch_dataset \<times> torch_dataset) \<times> 'g world)" where
  "preprocessing_data self rt ds0 w =
     bind_err (index_labels ds0) (\<lambda>ds.
     bind_err (generate_hierarchy_segment self w) (\<lambda>segmented_parent_child.
       let parents_idx = index_parents segmented_parent_child;
           segmented_by_hierarchy = replicate (length parents_idx) PyList
       in bind_err (get_max_length ds 10) (\<lambda>max_length.
          bind_err (fold_err (encode_row self rt segmented_parent_child parents_idx max_length)
                      (rows ds) (segmented_by_hierarchy, [], []))
            (\<lambda>(segs, flat_input_ids, flat_target).
          bind_err (split_buckets rt segs (rng w)) (\<lambda>(hierarchical_dataset, g1).
            let w1 = w\<lparr>files := dict_set ''datasets/hierarchical_dataset.pkl''
                                   (Pickled hierarchical_dataset) (files w)\<rparr>
            in bind_err (data_splitting rt flat_input_ids flat_target g1)
                 (\<lambda>((train_set, valid_set, test_set), g2).
                    Inr ((train_set, valid_set, test_set),
                         (torch_save test_set ''datasets/test_set.pt''
                           (torch_save valid_set ''datasets/valid_set.pt''
                             (torch_save train_set ''datasets/train_set.pt'' w1)))
                           \<lparr>rng := g2\<rparr>)))))))"

section \<open>\<open>preprocessor\<close>: load the cached splits or build them\<close>

definition preprocessor ::
  "Preprocessor \<Rightarrow> 'g runtime \<Rightarrow> 'g world \<Rightarrow>
     py_error + ((torch_dataset \<times> torch_dataset \<times> torch_dataset) \<times> 'g world)" where
  "preprocessor self rt w =
     (if path_exists w ''datasets/train_set.pt'' \<and> path_exists w ''datasets/valid_set.pt''
         \<and> path_exists w ''datasets/test_set.pt''
      then (let w1 = print ''\<newline>Loading Data...'' w
            in bind_err (torch_load w1 ''datasets/train_set.pt'') (\<lambda>train_set.
               bind_err (torch_load w1 ''datasets/valid_set.pt'') (\<lambda>valid_set.
               bind_err (torch_load w1 ''datasets/test_set.pt'') (\<lambda>test_set.
                 Inr ((train_set, valid_set, test_set),
                      print ''[ Loading Completed ]\<newline>'' w1)))))
      else (let w1 = print ''\<newline>Preprocessing Data...'' w
            in bind_err (preprocessing_data self rt (dataset self) w1) (\<lambda>(sets, w2).
                 Inr (sets, print ''[ Preprocessing Completed ]\<newline>'' w2))))"

section \<open>Vocabulary of the specification\<close>

text \<open>
  The adjacent (parent, child) pairs of a node sequence, and of a whole tree file in
  reading order.
\<close>

definition line_pairs :: "string list \<Rightarrow> (string \<times> string) list" where
  "line_pairs nodes = zip nodes (tl nodes)"

definition file_pairs :: "string list \<Rightarrow> (string \<times> string) list" where
  "file_pairs tree = concat (map (\<lambda>path. line_pairs (nodes_of path)) tree)"

text \<open>
  Following the specification's words, not the source: the children of a parent in the
  order in which each was first encountered while reading the file.
\<close>

definition spec_children_in_order :: "string list \<Rightarrow> string \<Rightarrow> string list" where
  "spec_children_in_order tree parent =
     unique (map snd (filter (\<lambda>pc. fst pc = parent) (file_pairs tree)))"

text \<open>
  Following the specification's words: \<open>round(p/q \<times> n)\<close>, the integer nearest to the
  exact product, a tie going to the even neighbour as Python's \<open>round\<close> sends it.
\<close>

definition spec_round :: "nat \<Rightarrow> nat \<Rightarrow> nat \<Rightarrow> nat" where
  "spec_round p q n =
     (let k = (p * n) div q; r = (p * n) mod q
      in if 2 * r > q \<or> (2 * r = q \<and> odd k) then k + 1 else k)"

text \<open>The recorded children of a parent in a parsed hierarchy; none when it is no key.\<close>

definition recorded_children :: "hierarchy \<Rightarrow> string \<Rightarrow> string set" where
  "recorded_children h parent = (case map_of h parent of None \<Rightarrow> {} | Some s \<Rightarrow> set s)"

text \<open>
  The vectors a bucket of \<open>segmented_by_hierarchy\<close> holds under
  \<open>'hierarchical_target'\<close>: none while the bucket is still the empty list.
\<close>

fun hierarchical_target :: "bucket \<Rightarrow> nat list list" where
  "hierarchical_target PyList = []"
| "hierarchical_target (PyDict ids tgt) = tgt"

text \<open>
  The children that follow the parent \<open>P\<close> in a path, one for every depth at which
  the path holds a pair \<open>(P, c)\<close>, in the order of the depths.
\<close>

definition children_in_path :: "string \<Rightarrow> string list \<Rightarrow> string list" where
  "children_in_path P nodes = map snd (filter (\<lambda>pc. fst pc = P) (line_pairs nodes))"

text \<open>
  Following the specification's words: the leaf index of a label is its rank in the
  first-seen order of the distinct labels, that is the number of distinct labels the
  column holds above the first row with this label.
\<close>

definition spec_leaf_index :: "cell list \<Rightarrow> cell \<Rightarrow> nat" where
  "spec_leaf_index leaf x = card (set (takeWhile (\<lambda>y. y \<noteq> x) leaf))"

section \<open>Example inputs\<close>

definition ex_table :: dataframe where
  "ex_table = \<lparr>columns = [''nama'', ''root'', ''leaf'', ''path''],
     rows = [[CStr ''kabel data usb'', CStr ''a'', CStr ''b'', CStr ''A > b''],
             [CStr ''charger mobil'', CStr ''a'', CStr ''c'', CStr ''a > c'']]\<rparr>"

definition ex_self :: Preprocessor where
  "ex_self = \<lparr>batch_size = 32, dataset = ex_table, num_classes = 2,
     hierarchy_tree = ''tree.txt'', data_cleaning = lower,
     tokenizer = (\<lambda>text max_length. replicate max_length 0)\<rparr>"

text \<open>
  A runtime whose sets iterate in the reverse of the insertion order (as CPython does for
  \<open>{'b', 'c'}\<close> under \<open>PYTHONHASHSEED=0\<close>) and whose generator always returns the
  permutation \<open>n-1, ..., 1, 0\<close>.
\<close>

definition ex_runtime :: "unit runtime" where
  "ex_runtime = \<lparr>set_order = rev, randperm = (\<lambda>n g. (rev [0..<n], g))\<rparr>"

text \<open>Ten examples, numbered by their single token.\<close>

definition ex_input_ids :: "int list list" where
  "ex_input_ids = [[0], [1], [2], [3], [4], [5], [6], [7], [8], [9]]"

definition ex_target :: "nat list list" where
  "ex_target = replicate 10 [1, 0]"

definition ex_world :: "string \<Rightarrow> unit world" where
  "ex_world tree = \<lparr>files = [(''tree.txt'', Text tree)], rng = (), stdout = []\<rparr>"

definition ex_cached :: "unit world" where
  "ex_cached =
     \<lparr>files = [(''datasets/train_set.pt'', Saved (TensorDataset [[1]] [[1]])),
               (''datasets/valid_set.pt'', Saved (TensorDataset [[2]] [[1]])),
               (''datasets/test_set.pt'', Saved (TensorDataset [[3]] [[1]]))],
      rng = (), stdout = []\<rparr>"

text \<open>A sample whose path \<open>x > y\<close> the tree file \<open>x > z\<close> does not hold.\<close>

definition ex_mismatch_table :: dataframe where
  "ex_mismatch_table = \<lparr>columns = [''nama'', ''root'', ''leaf'', ''path''],
     rows = [[CStr ''lampu'', CStr ''x'', CStr ''y'', CStr ''x > y'']]\<rparr>"

definition ex_mismatch_self :: Preprocessor where
  "ex_mismatch_self = ex_self\<lparr>dataset := ex_mismatch_table\<rparr>"

definition ex_mismatch_indexed :: dataframe where
  "ex_mismatch_indexed = \<lparr>columns = [''nama'', ''root'', ''leaf'', ''path'', ''label_idx''],
     rows = [[CStr ''lampu'', CStr ''x'', CStr ''y'', CStr ''x > y'', CInt 0]]\<rparr>"

definition ex_indexed :: dataframe where
  "ex_indexed = \<lparr>columns = [''nama'', ''root'', ''leaf'', ''path'', ''label_idx''],
     rows = [[CStr ''kabel data usb'', CStr ''a'', CStr ''b'', CStr ''A > b'', CInt 0],
             [CStr ''charger mobil'', CStr ''a'', CStr ''c'', CStr ''a > c'', CInt 1]]\<rparr>"

text \<open>
  A table with a fifth column of its own, the stock of the article, before
  \<open>'label_idx'\<close> is appended as the sixth.
\<close>

definition ex_stock_table :: dataframe where
  "ex_stock_table = \<lparr>columns = [''nama'', ''root'', ''leaf'', ''path'', ''stok''],
     rows = [[CStr ''kabel data usb'', CStr ''a'', CStr ''b'', CStr ''A > b'', CInt 1],
             [CStr ''charger mobil'', CStr ''a'', CStr ''c'', CStr ''a > c'', CInt 0]]\<rparr>"

definition ex_stock_self :: Preprocessor where
  "ex_stock_self = ex_self\<lparr>dataset := ex_stock_table\<rparr>"

definition ex_stock_indexed :: dataframe where
  "ex_stock_indexed =
     \<lparr>columns = [''nama'', ''root'', ''leaf'', ''path'', ''stok'', ''label_idx''],
      rows = [[CStr ''kabel data usb'', CStr ''a'', CStr ''b'', CStr ''A > b'', CInt 1, CInt 0],
              [CStr ''charger mobil'', CStr ''a'', CStr ''c'', CStr ''a > c'', CInt 0, CInt 1]]\<rparr>"

section \<open>Basic facts\<close>

lemma bind_err_simps [simp]:
  "bind_err (Inl e) f = Inl e"
  "bind_err (Inr x) f = f x"
  by (simp_all add: bind_err_def)

lemma first_index_None: "first_index xs x = None \<longleftrightarrow> x \<notin> set xs"
  by (induction xs) auto

lemma first_index_Some:
  "first_index xs x = Some i \<Longrightarrow> i < length xs \<and> xs ! i = x \<and> (\<forall>j<i. xs ! j \<noteq> x)"
proof (induction xs arbitrary: i)
  case Nil
  then show ?case by simp
next
  case (Cons y ys)
  show ?case
  proof (cases "y = x")
    case True
    with Cons.prems show ?thesis by simp
  next
    case False
    with Cons.prems obtain k where k: "first_index ys x = Some k" "i = Suc k"
      by auto
    from Cons.IH [OF k(1)] False k(2) show ?thesis
      by (auto simp: nth_Cons split: nat.splits)
  qed
qed

lemma first_index_mem: "x \<in> set xs \<Longrightarrow> \<exists>i. first_index xs x = Some i"
  using first_index_None [of xs x] by (cases "first_index xs x") auto

lemma fold_insert_new_distinct:
  "distinct acc \<Longrightarrow> distinct (fold (\<lambda>x acc. if x \<in> set acc then acc else acc @ [x]) xs acc)"
  by (induction xs arbitrary: acc) auto

lemma fold_insert_new_set:
  "set (fold (\<lambda>x acc. if x \<in> set acc then acc else acc @ [x]) xs acc) = set acc \<union> set xs"
  by (induction xs arbitrary: acc) auto

lemma distinct_unique: "distinct (unique xs)"
  by (simp add: unique_def fold_insert_new_distinct)

lemma set_unique: "set (unique xs) = set xs"
  by (simp add: unique_def fold_insert_new_set)

lemma unique_fold_set_add: "unique cs = fold set_add cs []"
proof -
  have "(\<lambda>x acc. if x \<in> set acc then acc else acc @ [x]) = set_add"
    by (simp add: fun_eq_iff set_add_def)
  then show ?thesis by (simp add: unique_def)
qed

lemma iteration_ok_set: "iteration_ok order \<Longrightarrow> distinct s \<Longrightarrow> set (order s) = set s"
  unfolding iteration_ok_def by (metis set_mset_mset)

lemma iteration_ok_length: "iteration_ok order \<Longrightarrow> distinct s \<Longrightarrow> length (order s) = length s"
  unfolding iteration_ok_def by (metis size_mset)

lemma iteration_ok_rev: "iteration_ok rev"
  by (simp add: iteration_ok_def)

section \<open>What the parsed hierarchy holds\<close>

lemma map_of_dict_set: "map_of (dict_set k v d) = (map_of d)(k \<mapsto> v)"
  by (induction d) (auto simp: fun_eq_iff)

lemma map_of_add_child:
  "map_of (add_child p c d) =
     (map_of d)(p \<mapsto> set_add c (case map_of d p of None \<Rightarrow> [] | Some s \<Rightarrow> s))"
  by (simp add: add_child_def map_of_dict_set split: option.splits)

text \<open>The loop over \<open>enumerate(nodes)\<close> visits exactly the adjacent pairs.\<close>

lemma fold_enumerate_pairs:
  "all = pre @ x # ns \<Longrightarrow>
   fold (\<lambda>(depth, node) d'.
           if depth > 0 then add_child (all ! (depth - 1)) node d' else d')
        (enumerate (Suc (length pre)) ns) d
   = fold (\<lambda>(p, c). add_child p c) (zip (x # ns) ns) d"
proof (induction ns arbitrary: pre x d)
  case Nil
  then show ?case by simp
next
  case (Cons n ns)
  have all: "all = (pre @ [x]) @ n # ns"
    using Cons.prems by simp
  have here: "all ! length pre = x"
    using Cons.prems by simp
  show ?case
    using Cons.IH [OF all, of "add_child x n d"] by (simp add: here)
qed

lemma add_path_pairs: "add_path nodes d = fold (\<lambda>(p, c). add_child p c) (line_pairs nodes) d"
proof (cases nodes)
  case Nil
  then show ?thesis by (simp add: add_path_def line_pairs_def)
next
  case (Cons x ns)
  from fold_enumerate_pairs [of "x # ns" "[]" x ns d] show ?thesis
    by (simp add: add_path_def line_pairs_def Cons)
qed

lemma fold_add_path_pairs:
  "fold (\<lambda>path d. add_path (nodes_of path) d) tree d
   = fold (\<lambda>(p, c). add_child p c) (file_pairs tree) d"
  by (induction tree arbitrary: d) (simp_all add: file_pairs_def add_path_pairs)

lemma segment_lines_pairs:
  "segment_lines tree = fold (\<lambda>(p, c). add_child p c) (file_pairs tree) []"
  by (simp add: segment_lines_def fold_add_path_pairs)

lemma map_of_fold_add_child:
  "map_of (fold (\<lambda>(p, c). add_child p c) ps d) P =
     (if P \<in> fst ` set ps
      then Some (fold set_add (map snd (filter (\<lambda>pc. fst pc = P) ps))
                   (case map_of d P of None \<Rightarrow> [] | Some s \<Rightarrow> s))
      else map_of d P)"
proof (induction ps arbitrary: d)
  case Nil
  then show ?case by simp
next
  case (Cons pc ps)
  obtain p c where pc: "pc = (p, c)" by (cases pc)
  show ?case
  proof (cases "P \<in> fst ` set ps")
    case True
    then show ?thesis
      by (simp add: pc Cons.IH map_of_add_child)
  next
    case False
    then have "filter (\<lambda>pc. fst pc = P) ps = []"
      by (auto simp: filter_empty_conv)
    with False show ?thesis
      by (auto simp: pc Cons.IH map_of_add_child)
  qed
qed

lemma map_of_segment_lines:
  "map_of (segment_lines tree) P =
     (if P \<in> fst ` set (file_pairs tree) then Some (spec_children_in_order tree P) else None)"
  by (simp add: segment_lines_pairs map_of_fold_add_child spec_children_in_order_def
      unique_fold_set_add)

lemma segment_lines_distinct: "map_of (segment_lines tree) P = Some s \<Longrightarrow> distinct s"
  by (auto simp: map_of_segment_lines spec_children_in_order_def distinct_unique split: if_splits)

lemma hierarchical_binary_recorded:
  assumes "map_of h P = Some s"
  shows "hierarchical_binary rt h P c =
           (case first_index (set_order rt s) c of
              None \<Rightarrow> Inl (ValueError c)
            | Some i \<Rightarrow> Inr ((replicate (length (set_order rt s)) 0)[i := 1]))"
  using assms
  by (simp add: hierarchical_binary_def dict_get_def list_index_def Let_def split: option.splits)

lemma hierarchical_binary_unrecorded:
  assumes "map_of h P = None"
  shows "hierarchical_binary rt h P c = Inl (KeyError P)"
  using assms by (simp add: hierarchical_binary_def dict_get_def)

lemma ex_segment_two_children:
  "segment_lines [''a > b\<newline>'', ''a > c\<newline>''] = [(''a'', [''b'', ''c''])]"
  by code_simp

section \<open>Printing leaves the files and the generator alone\<close>

lemma generate_hierarchy_segment_print [simp]:
  "generate_hierarchy_segment self (print s w) = generate_hierarchy_segment self w"
  by (simp add: generate_hierarchy_segment_def print_def)

lemma rng_print [simp]: "rng (print s w) = rng w"
  by (simp add: print_def)

lemma ex_world_no_cache: "\<not> path_exists (ex_world tree) ''datasets/train_set.pt''"
  by (simp add: path_exists_def ex_world_def)

lemma ex_dataset: "dataset ex_self = ex_table"
  by (simp add: ex_self_def)

section \<open>Evaluating the sizes and unfolding \<open>data_splitting\<close>\<close>

lemma bitlen_0 [simp]: "bitlen 0 = 0"
  by (simp add: bitlen.simps)

lemma bitlen_1 [simp]: "bitlen (Suc 0) = 1"
  by (simp add: bitlen.simps)

lemma bitlen_numeral [simp]:
  "bitlen (numeral num.One) = 1"
  "bitlen (numeral (num.Bit0 n)) = bitlen (numeral n) + 1"
  "bitlen (numeral (num.Bit1 n)) = bitlen (numeral n) + 1"
proof -
  show "bitlen (numeral num.One) = 1"
    by (simp add: bitlen.simps)
  have "numeral (num.Bit0 n) div (2::nat) = numeral n"
    by (metis nonzero_mult_div_cancel_left numeral_Bit0_eq_double zero_neq_numeral)
  then show "bitlen (numeral (num.Bit0 n)) = bitlen (numeral n) + 1"
    by (subst bitlen.simps) simp
  have "numeral (num.Bit1 n) div (2::nat) = numeral n"
    by (simp add: numeral_Bit1_div_2)
  then show "bitlen (numeral (num.Bit1 n)) = bitlen (numeral n) + 1"
    by (subst bitlen.simps) simp
qed

lemma sizes_100: "py_round (fmul (float_of_nat 100) c08) = 80"
  by (simp add: float_of_nat_def c08_def round_half_even_def Let_def)

lemma sizes_80: "py_round (fmul (float_of_nat 80) c09) = 72"
  by (simp add: float_of_nat_def c09_def round_half_even_def Let_def)

lemma sizes_2: "py_round (fmul (float_of_nat 2) c08) = 2"
  by (simp add: float_of_nat_def c08_def round_half_even_def Let_def)

lemma sizes_5: "py_round (fmul (float_of_nat 5) c09) = 4"
  by (simp add: float_of_nat_def c09_def round_half_even_def Let_def)

lemma data_splitting_unfold:
  assumes ids: "list_all (\<lambda>xs. length xs = length (hd ids)) ids"
    and tgt: "list_all (\<lambda>xs. length xs = length (hd tgt)) tgt"
    and len: "length ids = length tgt"
    and n: "length ids = n"
    and pa: "randperm rt n g = (pa, ga)"
    and tv: "py_round (fmul (float_of_nat n) c08) = tv"
    and m: "length (take tv pa) = m"
    and pb: "randperm rt m ga = (pb, gb)"
    and tr: "py_round (fmul (float_of_nat m) c09) = tr"
  shows "data_splitting rt ids tgt g =
           Inr ((Subset (Subset (TensorDataset ids tgt) (take tv pa)) (take tr pb),
                 Subset (Subset (TensorDataset ids tgt) (take tv pa)) (take (m - tr) (drop tr pb)),
                 Subset (TensorDataset ids tgt) (take (n - tv) (drop tv pa))), gb)"
proof -
  have "data_splitting rt ids tgt g =
          bind_err (random_split rt (TensorDataset ids tgt) [int tv, int n - int tv] g)
          (\<lambda>(parts, g1).
             case parts of
               [train_valid_set, test_set] \<Rightarrow>
                 (let train_size = py_round (fmul (float_of_nat (len train_valid_set)) c09);
                      valid_size = int (len train_valid_set) - int train_size
                  in bind_err (random_split rt train_valid_set [int train_size, valid_size] g1)
                       (\<lambda>(parts', g2).
                          case parts' of
                            [train_set, valid_set] \<Rightarrow> Inr ((train_set, valid_set, test_set), g2)
                          | _ \<Rightarrow> Inl (ValueError ''unpack'')))
             | _ \<Rightarrow> Inl (ValueError ''unpack''))"
    using ids tgt len n tv
    by (simp add: data_splitting_def torch_tensor_def tensor_dataset_def Let_def)
  moreover have "random_split rt (TensorDataset ids tgt) [int tv, int n - int tv] g =
      Inr ([Subset (TensorDataset ids tgt) (take tv pa),
            Subset (TensorDataset ids tgt) (take (n - tv) (drop tv pa))], ga)"
    using n pa by (simp add: random_split_def slice_def)
  moreover have "random_split rt (Subset (TensorDataset ids tgt) (take tv pa)) [int tr, int m - int tr] ga =
      Inr ([Subset (Subset (TensorDataset ids tgt) (take tv pa)) (take tr pb),
            Subset (Subset (TensorDataset ids tgt) (take tv pa)) (take (m - tr) (drop tr pb))], gb)"
    using m pb by (simp add: random_split_def slice_def)
  ultimately show ?thesis
    using m tr by (simp add: Let_def)
qed

lemma sizes_2_09: "py_round (fmul (float_of_nat 2) c09) = 2"
  by (simp add: float_of_nat_def c09_def round_half_even_def Let_def)

section \<open>The rounded sizes\<close>

text \<open>The number of bits of a natural number.\<close>

lemma bitlen_upper: "m < 2 ^ bitlen m"
proof (induction m rule: bitlen.induct)
  case (1 n)
  show ?case
  proof (cases "n = 0")
    case True
    then show ?thesis by simp
  next
    case False
    from "1.IH" [OF False] have "n div 2 < 2 ^ bitlen (n div 2)" .
    then have "n < 2 * 2 ^ bitlen (n div 2)"
      by linarith
    with False show ?thesis
      by (subst bitlen.simps) simp
  qed
qed

lemma bitlen_le: "m < 2 ^ n \<Longrightarrow> bitlen m \<le> n"
proof (induction n arbitrary: m)
  case 0
  then show ?case by simp
next
  case (Suc n)
  show ?case
  proof (cases "m = 0")
    case True
    then show ?thesis by simp
  next
    case False
    from Suc.prems have "m div 2 < 2 ^ n"
      by simp
    from Suc.IH [OF this] False show ?thesis
      by (subst bitlen.simps) simp
  qed
qed

lemma bitlen_lower: "m \<noteq> 0 \<Longrightarrow> 2 ^ (bitlen m - 1) \<le> m"
proof (induction m rule: bitlen.induct)
  case (1 n)
  have bl: "bitlen n = Suc (bitlen (n div 2))"
    using "1.prems" by (subst bitlen.simps) simp
  show ?case
  proof (cases "n div 2 = 0")
    case True
    with "1.prems" show ?thesis
      by (simp add: bl)
  next
    case False
    from "1.IH" [OF "1.prems" False] have "2 ^ (bitlen (n div 2) - 1) \<le> n div 2" .
    moreover have "bitlen (n div 2) \<noteq> 0"
      using False by (subst bitlen.simps) simp
    then have "(2::nat) ^ bitlen (n div 2) = 2 * 2 ^ (bitlen (n div 2) - 1)"
      by (cases "bitlen (n div 2)") simp_all
    ultimately have "2 ^ bitlen (n div 2) \<le> n"
      by linarith
    then show ?thesis
      by (simp add: bl)
  qed
qed

text \<open>Rounding to the nearest multiple of a power of two.\<close>

lemma round_half_even_qr:
  assumes "r < 2 ^ s"
  shows "round_half_even s (q * 2 ^ s + r) =
           (if 2 * r > 2 ^ s \<or> (2 * r = 2 ^ s \<and> odd q) then q + 1 else q)"
  using assms by (simp add: round_half_even_def Let_def)

lemma split_qr:
  obtains q r where "m = q * 2 ^ s + r" and "r < (2::nat) ^ s"
proof
  show "m = (m div 2 ^ s) * 2 ^ s + m mod 2 ^ s"
    by (rule div_mult_mod_eq [symmetric])
  show "m mod 2 ^ s < (2::nat) ^ s"
    by simp
qed

lemma round_half_even_error:
  "2 * (round_half_even s m * 2 ^ s) \<le> 2 * m + 2 ^ s
   \<and> 2 * m \<le> 2 * (round_half_even s m * 2 ^ s) + 2 ^ s"
proof -
  obtain q r where m: "m = q * 2 ^ s + r" and r: "r < (2::nat) ^ s"
    by (rule split_qr)
  show ?thesis
    unfolding m round_half_even_qr [OF r] using r
    by (auto simp: algebra_simps)
qed

lemma round_half_even_unique:
  assumes lo: "2 * R * 2 ^ s < 2 * m + 2 ^ s"
    and hi: "2 * m < (2 * R + 1) * 2 ^ s"
  shows "round_half_even s m = R"
proof -
  obtain q r where m: "m = q * 2 ^ s + r" and r: "r < (2::nat) ^ s"
    by (rule split_qr)
  define u where "u = (2::nat) ^ s"
  have u: "0 < u"
    by (simp add: u_def)
  note lo' = lo [unfolded m, folded u_def] and hi' = hi [unfolded m, folded u_def]
    and r' = r [folded u_def]
  have "2 * R * u < (2 * q + 3) * u"
    using lo' r' by (simp add: algebra_simps)
  then have a: "2 * R < 2 * q + 3"
    by (simp only: mult_less_cancel2)
  have "(2 * q) * u < (2 * R + 1) * u"
    using hi' by (simp add: algebra_simps)
  then have b: "2 * q < 2 * R + 1"
    by (simp only: mult_less_cancel2)
  from a b consider "R = q" | "R = q + 1"
    by linarith
  then have "(if 2 * r > u \<or> (2 * r = u \<and> odd q) then q + 1 else q) = R"
  proof cases
    case 1
    from hi' have "2 * r < u"
      unfolding 1 by (simp add: algebra_simps)
    then show ?thesis
      using 1 by simp
  next
    case 2
    from lo' have "u < 2 * r"
      unfolding 2 by (simp add: algebra_simps)
    then show ?thesis
      using 2 by simp
  qed
  then show ?thesis
    unfolding m round_half_even_qr [OF r] u_def .
qed

lemma round_half_even_tie:
  assumes tie: "2 * m = (2 * R + 1) * 2 ^ s"
  shows "round_half_even s m = (if odd R then R + 1 else R)"
proof -
  obtain q r where m: "m = q * 2 ^ s + r" and r: "r < (2::nat) ^ s"
    by (rule split_qr)
  define u where "u = (2::nat) ^ s"
  have u: "0 < u"
    by (simp add: u_def)
  note tie' = tie [unfolded m, folded u_def] and r' = r [folded u_def]
  have "(2 * q) * u \<le> (2 * R + 1) * u"
    using tie' by (simp add: algebra_simps)
  then have a: "2 * q \<le> 2 * R + 1"
    using u by (simp only: mult_le_cancel2)
  have "(2 * R + 1) * u < (2 * q + 2) * u"
    using tie' r' by (simp add: algebra_simps)
  then have b: "2 * R + 1 < 2 * q + 2"
    by (simp only: mult_less_cancel2)
  from a b have q: "q = R"
    by linarith
  with tie' have "2 * r = u"
    by (simp add: algebra_simps)
  with q have "(if 2 * r > u \<or> (2 * r = u \<and> odd q) then q + 1 else q) = (if odd R then R + 1 else R)"
    by simp
  then show ?thesis
    unfolding m round_half_even_qr [OF r] u_def .
qed

lemma round_half_even_0 [simp]: "round_half_even 0 m = m"
  by (simp add: round_half_even_def)

text \<open>
  Rounding to 53 significant bits changes a value by at most its \<open>2 ^ 53\<close>-th part, and
  a length below \<open>2 ^ 53\<close> converts to a double exactly.
\<close>

lemma rnd_exact: "bitlen m \<le> 53 \<Longrightarrow> rnd (m, k) = (m, k)"
  by (simp add: Let_def)

lemma rnd_error:
  assumes "rnd (m, k) = (m', k')"
  shows "k' = k \<and> 2 ^ 53 * m' \<le> 2 ^ 53 * m + m \<and> 2 ^ 53 * m \<le> 2 ^ 53 * m' + m"
proof (cases "bitlen m \<le> 53")
  case True
  with assms show ?thesis
    by (simp add: rnd_exact)
next
  case False
  define s where "s = bitlen m - 53"
  define u where "u = (2::nat) ^ s"
  from assms have k: "k' = k" and m': "m' = round_half_even s m * u"
    by (simp_all add: Let_def s_def u_def)
  from False have "m \<noteq> 0"
    by (cases "m = 0") simp_all
  then have "2 ^ (bitlen m - 1) \<le> m"
    by (rule bitlen_lower)
  moreover have "bitlen m - 1 = 52 + s"
    using False by (simp add: s_def)
  ultimately have big: "2 ^ 52 * u \<le> m"
    by (simp add: u_def power_add)
  from round_half_even_error [of s m]
  have "2 * m' \<le> 2 * m + u" and "2 * m \<le> 2 * m' + u"
    by (simp_all add: m' u_def)
  with big k show ?thesis
    by simp
qed

lemma float_of_nat_exact: "n < 2 ^ 53 \<Longrightarrow> float_of_nat n = (n, 0)"
  by (simp add: float_of_nat_def rnd_exact bitlen_le)

lemma spec_round_4_5: 
  "10 * spec_round 4 5 n \<le> 8 * n + 4 \<and> 8 * n \<le> 10 * spec_round 4 5 n + 4"
proof -
  define k where "k = (4 * n) div 5"
  define r where "r = (4 * n) mod 5"
  have n: "4 * n = 5 * k + r" and r: "r < 5"
    by (simp_all add: k_def r_def)
  have "2 * r > 5 \<or> (2 * r = 5 \<and> odd k) \<longleftrightarrow> 3 \<le> r"
    by presburger
  then have "spec_round 4 5 n = (if 3 \<le> r then k + 1 else k)"
    by (simp add: spec_round_def Let_def k_def r_def)
  with n r show ?thesis
    by (cases "3 \<le> r") simp_all
qed

lemma spec_round_9_10:
  assumes "(9 * m) mod 10 \<noteq> 5"
  shows "10 * spec_round 9 10 m \<le> 9 * m + 4 \<and> 9 * m \<le> 10 * spec_round 9 10 m + 4"
proof -
  define k where "k = (9 * m) div 10"
  define r where "r = (9 * m) mod 10"
  have m: "9 * m = 10 * k + r" and r: "r < 10" "r \<noteq> 5"
    using assms by (simp_all add: k_def r_def)
  have "2 * r > 10 \<or> (2 * r = 10 \<and> odd k) \<longleftrightarrow> 6 \<le> r"
    using r by presburger
  then have "spec_round 9 10 m = (if 6 \<le> r then k + 1 else k)"
    by (simp add: spec_round_def Let_def k_def r_def)
  with m r show ?thesis
    by (cases "6 \<le> r") simp_all
qed

lemma round_08:
  assumes small: "n < 2 ^ 48"
  shows "py_round (fmul (float_of_nat n) c08) = spec_round 4 5 n"
proof -
  have n53: "n < 2 ^ 53"
    using small by simp
  obtain m' k' where r: "rnd (n * 7205759403792794, 53) = (m', k')"
    by (cases "rnd (n * 7205759403792794, 53)")
  from rnd_error [OF r] have k': "k' = 53"
    and up: "2 ^ 53 * m' \<le> 2 ^ 53 * (n * 7205759403792794) + n * 7205759403792794"
    and lo: "2 ^ 53 * (n * 7205759403792794) \<le> 2 ^ 53 * m' + n * 7205759403792794"
    by simp_all
  have val: "py_round (fmul (float_of_nat n) c08) = round_half_even 53 m'"
    by (simp add: float_of_nat_exact [OF n53] c08_def r k' del: rnd.simps)
  note b = spec_round_4_5 [of n]
  have "round_half_even 53 m' = spec_round 4 5 n"
  proof (rule round_half_even_unique)
    show "2 * spec_round 4 5 n * 2 ^ 53 < 2 * m' + 2 ^ 53"
      using b lo small by simp
    show "2 * m' < (2 * spec_round 4 5 n + 1) * 2 ^ 53"
      using b up small by simp
  qed
  with val show ?thesis
    by simp
qed

lemma round_09_tie:
  assumes small: "m < 2 ^ 48"
    and tie: "(9 * m) mod 10 = 5"
  shows "rnd (m * 8106479329266893, 53) = ((2 * ((9 * m) div 10) + 1) * 2 ^ 52, 53)"
proof -
  define k where "k = (9 * m) div 10"
  define j where "j = m div 5"
  define P where "P = m * 8106479329266893"
  define s where "s = bitlen P - 53"
  define u where "u = (2::nat) ^ s"
  have k: "9 * m = 10 * k + 5"
    using tie unfolding k_def by presburger
  have j: "m = 5 * j"
    using tie unfolding j_def by presburger
  have kj: "2 * k + 1 = 9 * j"
    using k j by simp
  have P: "P = 9 * j * 2 ^ 52 + j"
    by (simp add: P_def j)
  have "P < 2 ^ 101"
    using small by (simp add: P_def)
  then have "bitlen P \<le> 101"
    by (rule bitlen_le)
  then have s52: "s \<le> 52"
    by (simp add: s_def)
  have "bitlen P \<le> s + 53"
    by (simp add: s_def)
  then have "(2::nat) ^ bitlen P \<le> 2 ^ (s + 53)"
    by (rule power_increasing) simp
  with bitlen_upper [of P] have Pu: "P < u * 2 ^ 53"
    by (simp add: u_def power_add)
  have ju: "2 * j < u"
    using Pu unfolding P by simp
  define R where "R = 9 * j * 2 ^ (52 - s)"
  have "(2::nat) ^ 52 = 2 ^ (52 - s) * 2 ^ s"
    using s52 by (simp flip: power_add)
  then have Ru: "R * u = 9 * j * 2 ^ 52"
    by (simp add: R_def u_def)
  have "round_half_even s P = R"
  proof (rule round_half_even_unique)
    have "2 * (R * u) < 2 * P + u"
      unfolding Ru P using ju by simp
    then show "2 * R * 2 ^ s < 2 * P + 2 ^ s"
      by (simp add: u_def algebra_simps)
    have "2 * P < 2 * (R * u) + u"
      unfolding Ru P using ju by simp
    then show "2 * P < (2 * R + 1) * 2 ^ s"
      by (simp add: u_def algebra_simps)
  qed
  then have "rnd (P, 53) = (R * u, 53)"
    by (simp add: Let_def s_def u_def)
  then show ?thesis
    unfolding Ru P_def k_def [symmetric] kj by simp
qed

lemma round_09:
  assumes small: "m < 2 ^ 48"
  shows "py_round (fmul (float_of_nat m) c09) = spec_round 9 10 m"
proof -
  have m53: "m < 2 ^ 53"
    using small by simp
  have val: "py_round (fmul (float_of_nat m) c09) = py_round (rnd (m * 8106479329266893, 53))"
    by (simp add: float_of_nat_exact [OF m53] c09_def del: rnd.simps)
  show ?thesis
  proof (cases "(9 * m) mod 10 = 5")
    case True
    define k where "k = (9 * m) div 10"
    have "py_round (rnd (m * 8106479329266893, 53)) = round_half_even 53 ((2 * k + 1) * 2 ^ 52)"
      by (simp only: round_09_tie [OF small True] k_def py_round.simps)
    also have "\<dots> = (if odd k then k + 1 else k)"
      by (rule round_half_even_tie) simp
    also have "\<dots> = spec_round 9 10 m"
      using True by (simp add: spec_round_def Let_def k_def)
    finally show ?thesis
      using val by simp
  next
    case False
    obtain m' k' where r: "rnd (m * 8106479329266893, 53) = (m', k')"
      by (cases "rnd (m * 8106479329266893, 53)")
    from rnd_error [OF r] have k': "k' = 53"
      and up: "2 ^ 53 * m' \<le> 2 ^ 53 * (m * 8106479329266893) + m * 8106479329266893"
      and lo: "2 ^ 53 * (m * 8106479329266893) \<le> 2 ^ 53 * m' + m * 8106479329266893"
      by simp_all
    note b = spec_round_9_10 [OF False]
    have "round_half_even 53 m' = spec_round 9 10 m"
    proof (rule round_half_even_unique)
      show "2 * spec_round 9 10 m * 2 ^ 53 < 2 * m' + 2 ^ 53"
        using b lo small by simp
      show "2 * m' < (2 * spec_round 9 10 m + 1) * 2 ^ 53"
        using b up small by simp
    qed
    then show ?thesis
      unfolding val r k' py_round.simps .
  qed
qed

lemma spec_round_4_5_le: "spec_round 4 5 n \<le> n"
  using spec_round_4_5 [of n] by (cases "n = 0") (simp_all add: spec_round_def)

lemma spec_round_9_10_le: "spec_round 9 10 n \<le> n"
proof (cases "(9 * n) mod 10 = 5")
  case True
  then show ?thesis
    by (auto simp: spec_round_def Let_def)
next
  case False
  from spec_round_9_10 [OF False] show ?thesis
    by (cases "n < 5") (auto simp: spec_round_def Let_def)
qed

section \<open>The hierarchical one-hot vectors\<close>

text \<open>
  The inner loop of a sample reads \<open>child = nodes[depth + 1]\<close> for every
  \<open>depth\<close> but the last: it visits the adjacent pairs of the path.
\<close>

lemma fold_err_enumerate_pairs:
  "all = pre @ ns \<Longrightarrow>
   fold_err (\<lambda>(depth, node) s. bind_err (getitem all (depth + 1)) (\<lambda>child. f node child s))
       (enumerate (length pre) (butlast ns)) segs
   = fold_err (\<lambda>(node, child) s. f node child s) (line_pairs ns) segs"
proof (induction ns arbitrary: pre segs)
  case Nil
  then show ?case by (simp add: line_pairs_def)
next
  case (Cons n ns)
  define F where
    "F = (\<lambda>(depth, node) s. bind_err (getitem all (depth + 1)) (\<lambda>child. f node child s))"
  define G where "G = (\<lambda>(node, child) s. f node child s)"
  show ?case
  proof (cases ns)
    case Nil
    then show ?thesis by (simp add: line_pairs_def)
  next
    case ns: (Cons m ms)
    have all: "all = (pre @ [n]) @ ns"
      using Cons.prems by simp
    have here: "getitem all (length pre + 1) = Inr m"
      using Cons.prems ns by (simp add: getitem_def nth_append)
    have rest: "fold_err F (enumerate (Suc (length pre)) (butlast ns))
                = fold_err G (line_pairs ns)"
    proof (rule ext)
      fix s
      show "fold_err F (enumerate (Suc (length pre)) (butlast ns)) s
                = fold_err G (line_pairs ns) s"
        using Cons.IH [OF all, of s] by (simp add: F_def G_def)
    qed
    have first: "F (length pre, n) segs = G (n, m) segs"
      using here by (simp add: F_def G_def)
    have "fold_err F (enumerate (length pre) (butlast (n # ns))) segs
          = bind_err (F (length pre, n) segs)
              (fold_err F (enumerate (Suc (length pre)) (butlast ns)))"
      by (simp add: ns)
    also have "\<dots> = bind_err (G (n, m) segs) (fold_err G (line_pairs ns))"
      by (simp only: first rest)
    also have "\<dots> = fold_err G (line_pairs (n # ns)) segs"
      by (simp add: ns line_pairs_def)
    finally show ?thesis
      by (simp only: F_def G_def)
  qed
qed

lemma walk_path_pairs:
  "walk_path rt h pidx ids nodes segs =
     fold_err (\<lambda>(node, child) segs.
                 bind_err (hierarchical_binary rt h node child) (\<lambda>hb.
                 bind_err (dict_get pidx node) (\<lambda>parent_idx.
                   add_example segs parent_idx ids hb)))
       (line_pairs nodes) segs"
  using fold_err_enumerate_pairs [of nodes "[]" nodes
      "\<lambda>node child segs. bind_err (hierarchical_binary rt h node child) (\<lambda>hb.
                 bind_err (dict_get pidx node) (\<lambda>parent_idx.
                   add_example segs parent_idx ids hb))" segs]
  by (simp add: walk_path_def)

text \<open>
  The index of a parent is the position of its key, so two parents never share a bucket,
  and every recorded parent has an index.
\<close>

lemma index_fold_Some:
  "map_of (fold (\<lambda>(index, parent) d. dict_set parent index d) (enumerate n ks) d0) k = Some i
   \<Longrightarrow> (n \<le> i \<and> i < n + length ks \<and> ks ! (i - n) = k) \<or> map_of d0 k = Some i"
proof (induction ks arbitrary: n d0)
  case Nil
  then show ?case by simp
next
  case (Cons x ks)
  from Cons.prems
  have "map_of (fold (\<lambda>(index, parent) d. dict_set parent index d) (enumerate (Suc n) ks)
                  (dict_set x n d0)) k = Some i"
    by simp
  from Cons.IH [OF this]
  show ?case
  proof
    assume "Suc n \<le> i \<and> i < Suc n + length ks \<and> ks ! (i - Suc n) = k"
    then have "n \<le> i" "i < n + length (x # ks)" "i - n = Suc (i - Suc n)"
      and "ks ! (i - Suc n) = k"
      by auto
    then show ?thesis
      by simp
  next
    assume "map_of (dict_set x n d0) k = Some i"
    then show ?thesis
      by (auto simp: map_of_dict_set split: if_splits)
  qed
qed

lemma index_fold_ex:
  "k \<in> set ks \<or> map_of d0 k \<noteq> None \<Longrightarrow>
   \<exists>i. map_of (fold (\<lambda>(index, parent) d. dict_set parent index d) (enumerate n ks) d0) k = Some i"
proof (induction ks arbitrary: n d0)
  case Nil
  then show ?case by auto
next
  case (Cons x ks)
  have "k \<in> set ks \<or> map_of (dict_set x n d0) k \<noteq> None"
    using Cons.prems by (auto simp: map_of_dict_set)
  from Cons.IH [OF this, of "Suc n"] show ?case
    by simp
qed

lemma index_parents_Some:
  "map_of (index_parents h) k = Some i \<Longrightarrow> i < length h \<and> fst (h ! i) = k"
  using index_fold_Some [of 0 "keys h" "[]" k i]
  by (auto simp: index_parents_def keys_def)

lemma index_parents_ex:
  "map_of h k = Some s \<Longrightarrow> \<exists>i. map_of (index_parents h) k = Some i"
proof -
  assume "map_of h k = Some s"
  then have "k \<in> set (keys h)"
    by (auto simp: keys_def dest: map_of_SomeD intro: rev_image_eqI)
  then show ?thesis
    using index_fold_ex [of k "keys h" "[]" 0] by (simp add: index_parents_def)
qed

lemma add_example_Inr:
  assumes "add_example segs j ids hb = Inr segs1"
  shows "j < length segs \<and> length segs1 = length segs
       \<and> hierarchical_target (segs1 ! j) = hierarchical_target (segs ! j) @ [hb]
       \<and> (\<forall>i. i \<noteq> j \<longrightarrow> segs1 ! i = segs ! i)"
  using assms
  by (auto simp: add_example_def getitem_def split: if_splits bucket.splits)

lemma add_example_returns:
  "j < length segs \<Longrightarrow> \<exists>segs1. add_example segs j ids hb = Inr segs1"
  by (simp add: add_example_def getitem_def split: bucket.splits)

text \<open>
  One pair of the path leaves every bucket but the parent's untouched and appends the
  vector of the pair to the parent's; so the loop over the pairs appends to the bucket of
  \<open>P\<close> the vectors of the pairs \<open>(P, c)\<close>, in their order.
\<close>

lemma pair_step_Inr:
  assumes step: "bind_err (hierarchical_binary rt h p c) (\<lambda>hb.
                 bind_err (dict_get (index_parents h) p) (\<lambda>parent_idx.
                   add_example segs parent_idx ids hb)) = Inr segs1"
    and parent: "map_of h P = Some s"
    and index: "map_of (index_parents h) P = Some i"
  shows "length segs1 = length segs
       \<and> (p \<noteq> P \<longrightarrow> segs1 ! i = segs ! i)
       \<and> (p = P \<longrightarrow> (\<exists>k. first_index (set_order rt s) c = Some k
              \<and> hierarchical_target (segs1 ! i) = hierarchical_target (segs ! i)
                    @ [(replicate (length (set_order rt s)) 0)[k := 1]]))"
proof -
  from step obtain hb j where hb: "hierarchical_binary rt h p c = Inr hb"
    and j: "dict_get (index_parents h) p = Inr j"
    and add: "add_example segs j ids hb = Inr segs1"
    by (auto simp: bind_err_def split: sum.splits)
  from j have mj: "map_of (index_parents h) p = Some j"
    by (simp add: dict_get_def split: option.splits)
  note a = add_example_Inr [OF add]
  have other: "segs1 ! i = segs ! i" if "p \<noteq> P"
  proof -
    from index_parents_Some [OF mj] index_parents_Some [OF index] that have "i \<noteq> j"
      by auto
    with a show ?thesis by simp
  qed
  have same: "\<exists>k. first_index (set_order rt s) c = Some k
              \<and> hierarchical_target (segs1 ! i) = hierarchical_target (segs ! i)
                    @ [(replicate (length (set_order rt s)) 0)[k := 1]]" if "p = P"
  proof -
    from that mj index have ji: "j = i" by simp
    from hb that obtain k where "first_index (set_order rt s) c = Some k"
      and "hb = (replicate (length (set_order rt s)) 0)[k := 1]"
      by (auto simp: hierarchical_binary_recorded [OF parent] split: option.splits)
    with a ji show ?thesis by simp
  qed
  from a other same show ?thesis by blast
qed

lemma fold_pairs_targets:
  assumes run: "fold_err (\<lambda>(node, child) segs.
                 bind_err (hierarchical_binary rt h node child) (\<lambda>hb.
                 bind_err (dict_get (index_parents h) node) (\<lambda>parent_idx.
                   add_example segs parent_idx ids hb))) ps segs = Inr segs'"
    and parent: "map_of h P = Some s"
    and index: "map_of (index_parents h) P = Some i"
  shows "length segs' = length segs
       \<and> (\<exists>vs. hierarchical_target (segs' ! i) = hierarchical_target (segs ! i) @ vs
            \<and> list_all2 (\<lambda>c v. \<exists>k. first_index (set_order rt s) c = Some k
                    \<and> v = (replicate (length (set_order rt s)) 0)[k := 1])
                 (map snd (filter (\<lambda>pc. fst pc = P) ps)) vs)"
  using run
proof (induction ps arbitrary: segs)
  case Nil
  then show ?case by simp
next
  case (Cons pc ps)
  obtain p c where pc: "pc = (p, c)" by (cases pc)
  from Cons.prems obtain segs1 where
    step: "bind_err (hierarchical_binary rt h p c) (\<lambda>hb.
                 bind_err (dict_get (index_parents h) p) (\<lambda>parent_idx.
                   add_example segs parent_idx ids hb)) = Inr segs1"
    and rest: "fold_err (\<lambda>(node, child) segs.
                 bind_err (hierarchical_binary rt h node child) (\<lambda>hb.
                 bind_err (dict_get (index_parents h) node) (\<lambda>parent_idx.
                   add_example segs parent_idx ids hb))) ps segs1 = Inr segs'"
    unfolding pc fold_err.simps prod.case
    by (cases "bind_err (hierarchical_binary rt h p c) (\<lambda>hb.
                 bind_err (dict_get (index_parents h) p) (\<lambda>parent_idx.
                   add_example segs parent_idx ids hb))") simp_all
  note s1 = pair_step_Inr [OF step parent index]
  from Cons.IH [OF rest] obtain vs where len: "length segs' = length segs1"
    and tg: "hierarchical_target (segs' ! i) = hierarchical_target (segs1 ! i) @ vs"
    and all: "list_all2 (\<lambda>c v. \<exists>k. first_index (set_order rt s) c = Some k
                    \<and> v = (replicate (length (set_order rt s)) 0)[k := 1])
                 (map snd (filter (\<lambda>pc. fst pc = P) ps)) vs"
    by blast
  show ?case
  proof (cases "p = P")
    case True
    with s1 obtain k where k: "first_index (set_order rt s) c = Some k"
      and t1: "hierarchical_target (segs1 ! i) = hierarchical_target (segs ! i)
                    @ [(replicate (length (set_order rt s)) 0)[k := 1]]"
      by blast
    have "hierarchical_target (segs' ! i) = hierarchical_target (segs ! i)
            @ ((replicate (length (set_order rt s)) 0)[k := 1] # vs)"
      by (simp add: tg t1)
    moreover have "list_all2 (\<lambda>c v. \<exists>k. first_index (set_order rt s) c = Some k
                    \<and> v = (replicate (length (set_order rt s)) 0)[k := 1])
                 (map snd (filter (\<lambda>pc. fst pc = P) (pc # ps)))
                 ((replicate (length (set_order rt s)) 0)[k := 1] # vs)"
      using True k all by (simp add: pc)
    ultimately show ?thesis
      using len s1 by auto
  next
    case False
    with s1 have "segs1 ! i = segs ! i" by simp
    with tg all len s1 False show ?thesis
      by (auto simp: pc)
  qed
qed

lemma fold_pairs_returns:
  assumes order: "iteration_ok (set_order rt)"
    and pairs: "\<forall>(p, c) \<in> set ps. c \<in> recorded_children (segment_lines tree) p"
    and len: "length segs = length (segment_lines tree)"
  shows "\<exists>segs'. fold_err (\<lambda>(node, child) segs.
                 bind_err (hierarchical_binary rt (segment_lines tree) node child) (\<lambda>hb.
                 bind_err (dict_get (index_parents (segment_lines tree)) node) (\<lambda>parent_idx.
                   add_example segs parent_idx ids hb))) ps segs = Inr segs'"
  using pairs len
proof (induction ps arbitrary: segs)
  case Nil
  then show ?case by simp
next
  case (Cons pc ps)
  obtain p c where pc: "pc = (p, c)" by (cases pc)
  from Cons.prems(1) pc have "c \<in> recorded_children (segment_lines tree) p"
    by simp
  then obtain s where s: "map_of (segment_lines tree) p = Some s" and c: "c \<in> set s"
    by (auto simp: recorded_children_def split: option.splits)
  from segment_lines_distinct [OF s] order have "set (set_order rt s) = set s"
    by (simp add: iteration_ok_set)
  with c obtain k where k: "first_index (set_order rt s) c = Some k"
    using first_index_mem [of c "set_order rt s"] by auto
  from index_parents_ex [OF s] obtain j where
    j: "map_of (index_parents (segment_lines tree)) p = Some j"
    by blast
  from index_parents_Some [OF j] Cons.prems(2) have "j < length segs"
    by simp
  obtain hb where hb: "hierarchical_binary rt (segment_lines tree) p c = Inr hb"
    by (simp add: hierarchical_binary_recorded [OF s] k)
  from add_example_returns [OF \<open>j < length segs\<close>] obtain segs1 where
    add: "add_example segs j ids hb = Inr segs1"
    by blast
  from add_example_Inr [OF add] Cons.prems(2)
  have len1: "length segs1 = length (segment_lines tree)"
    by simp
  from Cons.prems(1) have "\<forall>(p, c) \<in> set ps. c \<in> recorded_children (segment_lines tree) p"
    by simp
  from Cons.IH [OF this len1] obtain segs' where "fold_err (\<lambda>(node, child) segs.
                 bind_err (hierarchical_binary rt (segment_lines tree) node child) (\<lambda>hb.
                 bind_err (dict_get (index_parents (segment_lines tree)) node) (\<lambda>parent_idx.
                   add_example segs parent_idx ids hb))) ps segs1 = Inr segs'"
    by blast
  then show ?case
    by (simp add: pc hb dict_get_def j add)
qed

lemma encode_row_walk:
  assumes "encode_row self rt h pidx m data (segs, ids, tgt) = Inr (segs', ids', tgt')"
  shows "\<exists>path token. getitem data 3 = Inr (CStr path)
           \<and> walk_path rt h pidx token (split_sep (lower path)) segs = Inr segs'"
proof -
  from assms obtain cell lowered token where cell: "getitem data 3 = Inr cell"
    and low: "cell_lower cell = Inr lowered"
    and walk: "walk_path rt h pidx token (split_sep lowered) segs = Inr segs'"
    by (auto simp: encode_row_def bind_err_def Let_def split: sum.splits)
  from low obtain path where "cell = CStr path" and "lowered = lower path"
    by (cases cell) auto
  with cell walk show ?thesis by blast
qed

text \<open>
  C1. Let \<open>P\<close> be a parent recorded by hierarchy parsing, with the children
  \<open>s\<close>, and let the row loop encode a sample (\<open>encode_row\<close>, the body of the
  loop of line 112, started with one bucket per parent as line 107 creates them). Then the
  sample's path is its cell \<open>data[3]\<close>, and the loop appends to the bucket of
  \<open>P\<close> one vector for every depth at which the path holds a pair \<open>(P, c)\<close>,
  in the order of the depths. Each of these vectors has as many entries as \<open>P\<close> has
  recorded children, a 1 at the position of \<open>c\<close> in the list of these children that
  the loop indexes (\<open>list(segmented_parent_child[node])\<close>), and 0 everywhere else.
  Moreover the walk of a path returns, having built a vector for each of its pairs,
  whenever every pair of the path is recorded.
\<close>

theorem hierarchical_one_hot:
  assumes order: "iteration_ok (set_order rt)"
    and parent: "map_of (segment_lines tree) P = Some s"
    and buckets: "length segs = length (segment_lines tree)"
    and row: "encode_row self rt (segment_lines tree) (index_parents (segment_lines tree))
                max_length data (segs, flat_input_ids, flat_target)
              = Inr (segs', flat_input_ids', flat_target')"
  shows "(\<exists>path parent_idx vs.
            getitem data 3 = Inr (CStr path)
          \<and> dict_get (index_parents (segment_lines tree)) P = Inr parent_idx
          \<and> parent_idx < length segs \<and> length segs' = length segs
          \<and> hierarchical_target (segs' ! parent_idx)
              = hierarchical_target (segs ! parent_idx) @ vs
          \<and> list_all2
              (\<lambda>c v. length v = card (recorded_children (segment_lines tree) P)
                 \<and> (\<exists>k. first_index (set_order rt s) c = Some k \<and> k < length v \<and> v ! k = 1
                        \<and> (\<forall>j < length v. j \<noteq> k \<longrightarrow> v ! j = 0)))
              (children_in_path P (split_sep (lower path))) vs)
       \<and> (\<forall>nodes token.
            (\<forall>(p, c) \<in> set (line_pairs nodes). c \<in> recorded_children (segment_lines tree) p)
            \<longrightarrow> (\<exists>segs''. walk_path rt (segment_lines tree)
                     (index_parents (segment_lines tree)) token nodes segs = Inr segs''))"
proof -
  let ?h = "segment_lines tree"
  from encode_row_walk [OF row] obtain path token where path: "getitem data 3 = Inr (CStr path)"
    and walk: "walk_path rt ?h (index_parents ?h) token (split_sep (lower path)) segs = Inr segs'"
    by blast
  from index_parents_ex [OF parent] obtain i where i: "map_of (index_parents ?h) P = Some i"
    by blast
  from index_parents_Some [OF i] buckets have range: "i < length segs"
    by simp
  have d: "distinct s"
    using parent by (rule segment_lines_distinct)
  have len: "length (set_order rt s) = card (recorded_children ?h P)"
    using order d parent by (simp add: iteration_ok_length recorded_children_def distinct_card)
  from fold_pairs_targets [OF walk [unfolded walk_path_pairs] parent i]
  obtain vs where same: "length segs' = length segs"
    and tg: "hierarchical_target (segs' ! i) = hierarchical_target (segs ! i) @ vs"
    and all: "list_all2 (\<lambda>c v. \<exists>k. first_index (set_order rt s) c = Some k
                    \<and> v = (replicate (length (set_order rt s)) 0)[k := 1])
                 (children_in_path P (split_sep (lower path))) vs"
    unfolding children_in_path_def by blast
  have shape: "length v = card (recorded_children ?h P)
                 \<and> (\<exists>k. first_index (set_order rt s) c = Some k \<and> k < length v \<and> v ! k = 1
                        \<and> (\<forall>j < length v. j \<noteq> k \<longrightarrow> v ! j = 0))"
    if "\<exists>k. first_index (set_order rt s) c = Some k
                    \<and> v = (replicate (length (set_order rt s)) 0)[k := 1]" for c v
  proof -
    from that obtain k where k: "first_index (set_order rt s) c = Some k"
      and v: "v = (replicate (length (set_order rt s)) 0)[k := 1]"
      by blast
    from first_index_Some [OF k] have "k < length (set_order rt s)"
      by simp
    with k v len show ?thesis
      by simp
  qed
  have vectors: "list_all2
              (\<lambda>c v. length v = card (recorded_children ?h P)
                 \<and> (\<exists>k. first_index (set_order rt s) c = Some k \<and> k < length v \<and> v ! k = 1
                        \<and> (\<forall>j < length v. j \<noteq> k \<longrightarrow> v ! j = 0)))
              (children_in_path P (split_sep (lower path))) vs"
    using all shape by (rule list_all2_mono)
  have idx: "dict_get (index_parents ?h) P = Inr i"
    by (simp add: dict_get_def i)
  have built: "\<exists>segs''. walk_path rt ?h (index_parents ?h) token nodes segs = Inr segs''"
    if "\<forall>(p, c) \<in> set (line_pairs nodes). c \<in> recorded_children ?h p" for nodes token
    unfolding walk_path_pairs using order that buckets by (rule fold_pairs_returns)
  from path idx range same tg vectors built show ?thesis
    by blast
qed

text \<open>
  The theorem at the tree \<open>a > b\<close>, \<open>a > c\<close>, the sample with the path
  \<open>a > c\<close> and sets that iterate in reverse: the bucket of \<open>a\<close> receives one
  vector, with two entries and its 1 first.
\<close>

lemma ex_row_of_c:
  "encode_row ex_self ex_runtime (segment_lines [''a > b\<newline>'', ''a > c\<newline>''])
     (index_parents (segment_lines [''a > b\<newline>'', ''a > c\<newline>''])) 13
     [CStr ''charger mobil'', CStr ''a'', CStr ''c'', CStr ''a > c'', CInt 1]
     ([PyList], [], [])
   = Inr ([PyDict [replicate 13 0] [[1, 0]]], [replicate 13 0], [[0, 1]])"
  by code_simp

theorem hierarchical_one_hot_witness:
  "iteration_ok (set_order ex_runtime)
   \<and> map_of (segment_lines [''a > b\<newline>'', ''a > c\<newline>'']) ''a'' = Some [''b'', ''c'']
   \<and> length [PyList] = length (segment_lines [''a > b\<newline>'', ''a > c\<newline>''])
   \<and> encode_row ex_self ex_runtime (segment_lines [''a > b\<newline>'', ''a > c\<newline>''])
        (index_parents (segment_lines [''a > b\<newline>'', ''a > c\<newline>''])) 13
        [CStr ''charger mobil'', CStr ''a'', CStr ''c'', CStr ''a > c'', CInt 1]
        ([PyList], [], [])
      = Inr ([PyDict [replicate 13 0] [[1, 0]]], [replicate 13 0], [[0, 1]])
   \<and> children_in_path ''a'' (split_sep (lower ''a > c'')) = [''c'']
   \<and> (\<exists>v. hierarchical_target ([PyDict [replicate 13 0] [[1, 0]]] ! 0) = [v]
          \<and> length v = 2 \<and> v ! 0 = 1 \<and> v ! 1 = 0)"
proof -
  have order: "iteration_ok (set_order ex_runtime)"
    by (simp add: ex_runtime_def iteration_ok_rev)
  have parent: "map_of (segment_lines [''a > b\<newline>'', ''a > c\<newline>'']) ''a'' = Some [''b'', ''c'']"
    by (simp add: ex_segment_two_children)
  have buckets: "length [PyList] = length (segment_lines [''a > b\<newline>'', ''a > c\<newline>''])"
    by (simp add: ex_segment_two_children)
  have children: "children_in_path ''a'' (split_sep (lower ''a > c'')) = [''c'']"
    by code_simp
  have cell: "getitem [CStr ''charger mobil'', CStr ''a'', CStr ''c'', CStr ''a > c'', CInt 1] 3
                = Inr (CStr ''a > c'')"
    by (simp add: getitem_def)
  have idx: "dict_get (index_parents (segment_lines [''a > b\<newline>'', ''a > c\<newline>''])) ''a'' = Inr 0"
    by code_simp
  have card: "card (recorded_children (segment_lines [''a > b\<newline>'', ''a > c\<newline>'']) ''a'') = 2"
    by (simp add: ex_segment_two_children recorded_children_def)
  have pos: "first_index (set_order ex_runtime [''b'', ''c'']) ''c'' = Some 0"
    by (simp add: ex_runtime_def)
  from hierarchical_one_hot [OF order parent buckets ex_row_of_c, THEN conjunct1]
  obtain path i vs where
    p: "getitem [CStr ''charger mobil'', CStr ''a'', CStr ''c'', CStr ''a > c'', CInt 1] 3
          = Inr (CStr path)"
    and i: "dict_get (index_parents (segment_lines [''a > b\<newline>'', ''a > c\<newline>''])) ''a'' = Inr i"
    and t: "hierarchical_target ([PyDict [replicate 13 0] [[1, 0]]] ! i)
              = hierarchical_target ([PyList] ! i) @ vs"
    and a: "list_all2
              (\<lambda>c v. length v = card (recorded_children
                                      (segment_lines [''a > b\<newline>'', ''a > c\<newline>'']) ''a'')
                 \<and> (\<exists>k. first_index (set_order ex_runtime [''b'', ''c'']) c = Some k
                        \<and> k < length v \<and> v ! k = 1
                        \<and> (\<forall>j < length v. j \<noteq> k \<longrightarrow> v ! j = 0)))
              (children_in_path ''a'' (split_sep (lower path))) vs"
    by blast
  from p cell have path: "path = ''a > c''"
    by simp
  from i idx have i0: "i = 0"
    by simp
  from t have tg: "hierarchical_target ([PyDict [replicate 13 0] [[1, 0]]] ! 0) = vs"
    unfolding i0 by simp
  from a have all: "list_all2
              (\<lambda>c v. length v = 2
                 \<and> (\<exists>k. first_index (set_order ex_runtime [''b'', ''c'']) c = Some k
                        \<and> k < length v \<and> v ! k = 1
                        \<and> (\<forall>j < length v. j \<noteq> k \<longrightarrow> v ! j = 0)))
              [''c''] vs"
    unfolding path children card .
  from all obtain v where vs: "vs = [v]" and len: "length v = 2"
    and one: "\<exists>k. first_index (set_order ex_runtime [''b'', ''c'']) ''c'' = Some k
                        \<and> k < length v \<and> v ! k = 1
                        \<and> (\<forall>j < length v. j \<noteq> k \<longrightarrow> v ! j = 0)"
    by (auto simp: list_all2_Cons1)
  from one pos obtain one0: "v ! 0 = 1" and rest: "\<forall>j < length v. j \<noteq> 0 \<longrightarrow> v ! j = 0"
    by auto
  from rest len have "v ! 1 = 0"
    by simp
  with tg vs len one0 have "\<exists>v. hierarchical_target ([PyDict [replicate 13 0] [[1, 0]]] ! 0) = [v]
          \<and> length v = 2 \<and> v ! 0 = 1 \<and> v ! 1 = 0"
    by simp
  with order parent buckets ex_row_of_c children show ?thesis
    by blast
qed

section \<open>The cache\<close>

lemma torch_load_stdout [simp]: "torch_load (w\<lparr>stdout := out\<rparr>) p = torch_load w p"
  by (simp add: torch_load_def)

text \<open>
  C5. Whenever the three flat artifacts exist, \<open>preprocessor\<close> is the three loads in a
  row and nothing else: the result does not depend on the table, the tree file or the
  runtime, no file is written, the generator is not advanced, and only the two loading
  messages are printed. Nothing is asked about \<open>datasets/hierarchical_dataset.pkl\<close>.
\<close>

theorem preprocessor_loads_cache:
  assumes "path_exists w ''datasets/train_set.pt''"
    and "path_exists w ''datasets/valid_set.pt''"
    and "path_exists w ''datasets/test_set.pt''"
  shows "preprocessor self rt w =
           bind_err (torch_load w ''datasets/train_set.pt'') (\<lambda>train_set.
           bind_err (torch_load w ''datasets/valid_set.pt'') (\<lambda>valid_set.
           bind_err (torch_load w ''datasets/test_set.pt'') (\<lambda>test_set.
             Inr ((train_set, valid_set, test_set),
                  w\<lparr>stdout := stdout w @
                     [''\<newline>Loading Data...'', ''[ Loading Completed ]\<newline>'']\<rparr>))))"
  using assms by (simp add: preprocessor_def Let_def print_def)

text \<open>
  The theorem at a world that holds the three artifacts and neither a tree file nor the
  hierarchical artifact.
\<close>

theorem preprocessor_loads_cache_witness:
  "preprocessor ex_self ex_runtime ex_cached =
     Inr ((TensorDataset [[1]] [[1]], TensorDataset [[2]] [[1]], TensorDataset [[3]] [[1]]),
          ex_cached\<lparr>stdout := [''\<newline>Loading Data...'', ''[ Loading Completed ]\<newline>'']\<rparr>)"
  using preprocessor_loads_cache [of ex_cached ex_self ex_runtime]
  by (simp add: ex_cached_def path_exists_def torch_load_def)

section \<open>Lines with fewer than two nodes\<close>

lemma add_path_short: "length nodes < 2 \<Longrightarrow> add_path nodes d = d"
  by (cases nodes) (simp_all add: add_path_pairs line_pairs_def)

lemma segment_lines_skip:
  "length (nodes_of path) < 2 \<Longrightarrow> segment_lines (before @ path # after) = segment_lines (before @ after)"
  by (simp add: segment_lines_def add_path_short)

text \<open>
  The tree file \<open>a > b\<close>, an empty line, \<open>c\<close>: parsing returns the map of the
  first line. No error is raised for the empty line or for the line with a single node.
\<close>

theorem malformed_lines_parse:
  "generate_hierarchy_segment ex_self (ex_world ''a > b\<newline>\<newline>c\<newline>'') = Inr [(''a'', [''b''])]"
  by code_simp

lemma split_sep_no_separator: "CHR ''>'' \<notin> set s \<Longrightarrow> split_sep s = [s]"
proof (induction s rule: split_sep.induct)
  case 1
  then show ?case by simp
next
  case (2 c cs)
  have "take 3 (c # cs) \<noteq> sep"
  proof
    assume "take 3 (c # cs) = sep"
    then have "CHR ''>'' \<in> set (take 3 (c # cs))"
      by (simp add: sep_def)
    then have "CHR ''>'' \<in> set (c # cs)"
      by (rule in_set_takeD)
    with "2.prems" show False
      by simp
  qed
  moreover from "2.prems" have "CHR ''>'' \<notin> set cs"
    by simp
  ultimately show ?case
    using "2.IH"(2) by simp
qed

lemma lower_char_gt: "lower_char c = CHR ''>'' \<Longrightarrow> c = CHR ''>''"
proof -
  assume a: "lower_char c = CHR ''>''"
  show ?thesis
  proof (cases "65 \<le> (of_char c :: nat) \<and> (of_char c :: nat) \<le> 90")
    case True
    then have "of_char (lower_char c) = (of_char c + 32 :: nat)"
      by (simp add: lower_char_def Let_def)
    with a True show ?thesis
      by simp
  next
    case False
    with a show ?thesis
      by (simp add: lower_char_def Let_def)
  qed
qed

lemma is_space_not_gt: "is_space c \<Longrightarrow> c \<noteq> CHR ''>''"
  by (auto simp: is_space_def Let_def)

lemma blank_line_one_node:
  assumes "list_all is_space path"
  shows "length (nodes_of path) < 2"
proof -
  have "CHR ''>'' \<notin> set (lower (butlast path))"
  proof
    assume "CHR ''>'' \<in> set (lower (butlast path))"
    then obtain c where c: "c \<in> set (butlast path)" "lower_char c = CHR ''>''"
      by (auto simp: lower_def)
    from c(1) have "c \<in> set path"
      by (rule in_set_butlastD)
    with assms have "is_space c"
      by (simp add: list_all_iff)
    with c(2) lower_char_gt is_space_not_gt show False
      by blast
  qed
  then show ?thesis
    by (simp add: nodes_of_def split_sep_no_separator)
qed

text \<open>
  C7, as the code has it. A line that holds nothing but whitespace, or that has fewer than
  two nodes after the split, raises nothing: parsing succeeds, and its result is that of
  the file without the line.
\<close>

theorem short_lines_are_skipped:
  assumes "map_of (files w) (hierarchy_tree self) = Some (Text tree)"
    and "file_lines tree = before @ path # after"
    and "list_all is_space path \<or> length (nodes_of path) < 2"
  shows "generate_hierarchy_segment self w = Inr (segment_lines (before @ after))"
proof -
  from assms(3) have "length (nodes_of path) < 2"
    using blank_line_one_node by blast
  with assms(1,2) show ?thesis
    by (simp add: generate_hierarchy_segment_def segment_lines_skip)
qed

lemma ex_lines_blank: "file_lines ''a > b\<newline>\<newline>c > d\<newline>'' = [''a > b\<newline>''] @ ''\<newline>'' # [''c > d\<newline>'']"
  by code_simp

lemma ex_nodes_blank: "nodes_of ''\<newline>'' = [[]]"
  by code_simp

text \<open>The theorem at the file \<open>a > b\<close>, an empty line, \<open>c > d\<close>.\<close>

theorem short_lines_are_skipped_witness:
  "generate_hierarchy_segment ex_self (ex_world ''a > b\<newline>\<newline>c > d\<newline>'')
     = Inr (segment_lines [''a > b\<newline>'', ''c > d\<newline>''])"
proof -
  have f: "map_of (files (ex_world ''a > b\<newline>\<newline>c > d\<newline>'')) (hierarchy_tree ex_self)
             = Some (Text ''a > b\<newline>\<newline>c > d\<newline>'')"
    by (simp add: ex_world_def ex_self_def)
  have n: "list_all is_space ''\<newline>'' \<or> length (nodes_of ''\<newline>'') < 2"
    by (simp add: ex_nodes_blank)
  from short_lines_are_skipped [OF f ex_lines_blank n] show ?thesis
    by simp
qed

section \<open>A pair the hierarchy does not hold\<close>

lemma fold_err_fails:
  "x \<in> set xs \<Longrightarrow> (\<And>s. \<exists>e. f x s = Inl e) \<Longrightarrow> \<exists>e. fold_err f xs s = Inl e"
proof (induction xs arbitrary: s)
  case Nil
  then show ?case by simp
next
  case (Cons y ys)
  show ?case
  proof (cases "f y s")
    case (Inl e)
    then show ?thesis by simp
  next
    case (Inr s')
    show ?thesis
    proof (cases "x = y")
      case True
      with Cons.prems(2) [of s] Inr show ?thesis by simp
    next
      case False
      with Cons.prems have "x \<in> set ys" by simp
      from Cons.IH [OF this Cons.prems(2), of s'] Inr show ?thesis by simp
    qed
  qed
qed

lemma hierarchical_binary_mismatch:
  assumes "iteration_ok (set_order rt)"
    and "c \<notin> recorded_children (segment_lines tree) P"
  shows "hierarchical_binary rt (segment_lines tree) P c =
           Inl (case map_of (segment_lines tree) P of None \<Rightarrow> KeyError P | Some s \<Rightarrow> ValueError c)"
proof (cases "map_of (segment_lines tree) P")
  case None
  then show ?thesis by (simp add: hierarchical_binary_unrecorded)
next
  case (Some s)
  have "distinct s" using Some by (rule segment_lines_distinct)
  with assms Some have "c \<notin> set (set_order rt s)"
    by (simp add: iteration_ok_set recorded_children_def)
  then have "first_index (set_order rt s) c = None"
    by (simp add: first_index_None)
  with Some show ?thesis
    by (simp add: hierarchical_binary_recorded [OF Some])
qed

lemma ex_mismatch_dataset: "dataset ex_mismatch_self = ex_mismatch_table"
  by (simp add: ex_mismatch_self_def)

lemma ex_mismatch_index_labels: "index_labels ex_mismatch_table = Inr ex_mismatch_indexed"
  by code_simp

lemma ex_mismatch_hierarchy:
  "generate_hierarchy_segment ex_mismatch_self (ex_world ''x > z\<newline>'') = Inr [(''x'', [''z''])]"
  by code_simp

lemma ex_mismatch_parents: "index_parents [(''x'', [''z''])] = [(''x'', 0)]"
  by code_simp

lemma ex_mismatch_max_length: "get_max_length ex_mismatch_indexed 10 = Inr 11"
  by code_simp

lemma ex_mismatch_rows:
  "fold_err (encode_row ex_mismatch_self ex_runtime [(''x'', [''z''])] [(''x'', 0)] 11)
     (rows ex_mismatch_indexed) ([PyList], [], []) = Inl (ValueError ''y'')"
  by code_simp

text \<open>
  Scenario D of the specification: the tree file lists \<open>x > z\<close> only and the sample's
  path is \<open>x > y\<close>; no cache file exists. Preprocessing ends in the \<open>ValueError\<close> of
  \<open>list.index\<close>, which carries the child and neither the sample nor the parent.
\<close>

theorem mismatch_is_a_bare_ValueError:
  "preprocessor ex_mismatch_self ex_runtime (ex_world ''x > z\<newline>'') = Inl (ValueError ''y'')"
  by (simp add: preprocessor_def ex_world_no_cache preprocessing_data_def ex_mismatch_dataset
      ex_mismatch_index_labels ex_mismatch_hierarchy ex_mismatch_parents ex_mismatch_max_length
      ex_mismatch_rows)

text \<open>
  C6, as the code has it. When the child of an adjacent pair of a sample's path is not among
  the recorded children of its parent, the lookup for that pair raises a built-in exception,
  \<open>ValueError\<close> with the child when the parent is a key of the hierarchy and
  \<open>KeyError\<close> with the parent when it is not, and the walk over the path ends in an
  exception: no example is emitted for the pair.
\<close>

theorem mismatch_raises_lookup_error:
  assumes "iteration_ok (set_order rt)"
    and "depth + 1 < length nodes"
    and "nodes ! (depth + 1) \<notin> recorded_children (segment_lines tree) (nodes ! depth)"
  shows "hierarchical_binary rt (segment_lines tree) (nodes ! depth) (nodes ! (depth + 1)) =
           Inl (case map_of (segment_lines tree) (nodes ! depth) of
                  None \<Rightarrow> KeyError (nodes ! depth)
                | Some s \<Rightarrow> ValueError (nodes ! (depth + 1)))
       \<and> (\<exists>e. walk_path rt (segment_lines tree) parents_idx input_ids nodes segs = Inl e)"
proof -
  let ?f = "\<lambda>(depth, node) segs.
                 bind_err (getitem nodes (depth + 1)) (\<lambda>child.
                 bind_err (hierarchical_binary rt (segment_lines tree) node child) (\<lambda>hb.
                 bind_err (dict_get parents_idx node) (\<lambda>parent_idx.
                   add_example segs parent_idx input_ids hb)))"
  have hb: "hierarchical_binary rt (segment_lines tree) (nodes ! depth) (nodes ! (depth + 1)) =
           Inl (case map_of (segment_lines tree) (nodes ! depth) of
                  None \<Rightarrow> KeyError (nodes ! depth)
                | Some s \<Rightarrow> ValueError (nodes ! (depth + 1)))"
    using assms(1,3) by (rule hierarchical_binary_mismatch)
  have d: "depth < length (butlast nodes)"
    using assms(2) by simp
  then have "(depth, butlast nodes ! depth) \<in> set (enumerate 0 (butlast nodes))"
    by (simp add: in_set_enumerate_eq)
  then have mem: "(depth, nodes ! depth) \<in> set (enumerate 0 (butlast nodes))"
    using d by (simp add: nth_butlast)
  have step: "\<exists>e. ?f (depth, nodes ! depth) s = Inl e" for s
    using assms(2) hb by (simp add: getitem_def)
  have "\<exists>e. fold_err ?f (enumerate 0 (butlast nodes)) segs = Inl e"
    using mem step by (rule fold_err_fails)
  then have "\<exists>e. walk_path rt (segment_lines tree) parents_idx input_ids nodes segs = Inl e"
    by (simp add: walk_path_def)
  with hb show ?thesis by blast
qed

text \<open>The theorem at the hierarchy \<open>x > z\<close> and the path \<open>x > y\<close>.\<close>

theorem mismatch_raises_lookup_error_witness:
  "iteration_ok (set_order ex_runtime)
   \<and> ''y'' \<notin> recorded_children (segment_lines [''x > z\<newline>'']) ''x''
   \<and> hierarchical_binary ex_runtime (segment_lines [''x > z\<newline>'']) ''x'' ''y'' = Inl (ValueError ''y'')
   \<and> (\<exists>e. walk_path ex_runtime (segment_lines [''x > z\<newline>'']) [(''x'', 0)] [] [''x'', ''y''] [PyList]
             = Inl e)"
proof -
  have seg: "segment_lines [''x > z\<newline>''] = [(''x'', [''z''])]"
    by code_simp
  have order: "iteration_ok (set_order ex_runtime)"
    by (simp add: ex_runtime_def iteration_ok_rev)
  have len: "0 + 1 < length [''x'', ''y'']"
    by simp
  have out: "[''x'', ''y''] ! (0 + 1) \<notin> recorded_children (segment_lines [''x > z\<newline>'']) ([''x'', ''y''] ! 0)"
    by (simp add: seg recorded_children_def)
  from mismatch_raises_lookup_error [OF order len out, of "[(''x'', 0)]" "[]" "[PyList]"] order out
  show ?thesis
    by (simp add: seg)
qed

section \<open>A parent that no sample touches\<close>

lemma ex_untouched_index_labels: "index_labels ex_table = Inr ex_indexed"
  by code_simp
lemma ex_untouched_hierarchy: "generate_hierarchy_segment ex_self (ex_world ''a > b\<newline>a > c\<newline>c > d\<newline>'')
   = Inr [(''a'', [''b'', ''c'']), (''c'', [''d''])]"
  by code_simp
lemma ex_untouched_parents: "index_parents [(''a'', [''b'', ''c'']), (''c'', [''d''])] = [(''a'', 0), (''c'', 1)]"
  by code_simp
lemma ex_untouched_max_length: "get_max_length ex_indexed 10 = Inr 13"
  by code_simp
lemma ex_untouched_rows: "fold_err (encode_row ex_self ex_runtime [(''a'', [''b'', ''c'']), (''c'', [''d''])] [(''a'', 0), (''c'', 1)] 13)
     (rows ex_indexed) ([PyList, PyList], [], [])
   = Inr ([PyDict [replicate 13 0, replicate 13 0] [[0, 1], [1, 0]], PyList],
          [replicate 13 0, replicate 13 0], [[1, 0], [0, 1]])"
  by code_simp

lemma ex_split_two:
  "data_splitting ex_runtime [replicate 13 0, replicate 13 0] [[0, 1], [1, 0]] () =
     Inr ((Subset (Subset (TensorDataset [replicate 13 0, replicate 13 0] [[0, 1], [1, 0]]) [1, 0]) [1, 0],
           Subset (Subset (TensorDataset [replicate 13 0, replicate 13 0] [[0, 1], [1, 0]]) [1, 0]) [],
           Subset (TensorDataset [replicate 13 0, replicate 13 0] [[0, 1], [1, 0]]) []), ())"
proof -
  have p: "randperm ex_runtime 2 () = ([1, 0], ())"
    by (simp add: ex_runtime_def upt_rec)
  have "data_splitting ex_runtime [replicate 13 0, replicate 13 0] [[0, 1], [1, 0]] () =
     Inr ((Subset (Subset (TensorDataset [replicate 13 0, replicate 13 0] [[0, 1], [1, 0]])
                     (take 2 [1, 0])) (take 2 [1, 0]),
           Subset (Subset (TensorDataset [replicate 13 0, replicate 13 0] [[0, 1], [1, 0]])
                     (take 2 [1, 0])) (take (2 - 2) (drop 2 [1, 0])),
           Subset (TensorDataset [replicate 13 0, replicate 13 0] [[0, 1], [1, 0]])
             (take (2 - 2) (drop 2 [1, 0]))), ())"
    by (rule data_splitting_unfold [where ga = "()"]) (simp_all add: p sizes_2 sizes_2_09)
  then show ?thesis
    by simp
qed

lemma ex_untouched_split: "split_buckets ex_runtime [PyDict [replicate 13 0, replicate 13 0] [[0, 1], [1, 0]], PyList] ()
   = Inl TypeError"
  unfolding split_buckets_def fold_err.simps bucket.case prod.case ex_split_two bind_err_simps
  by (rule refl)

lemma ex_untouched_buckets: "replicate (length [(''a'', 0::nat), (''c'', 1)]) PyList = [PyList, PyList]"
  by simp

lemma rng_ex_world: "rng (ex_world t) = ()"
  by simp

text \<open>
  C9 does not hold of the code. The tree file lists the parents \<open>a\<close> and \<open>c\<close>, the
  two samples have the paths \<open>a > b\<close> and \<open>a > c\<close>, so no path passes through the
  parent \<open>c\<close>; no cache file exists. The bucket of \<open>c\<close> is still the empty list
  when line 144 reads \<open>data['input_ids']\<close>, and preprocessing ends in a
  \<open>TypeError\<close>.
\<close>

theorem untouched_parent_raises_TypeError:
  "preprocessor ex_self ex_runtime (ex_world ''a > b\<newline>a > c\<newline>c > d\<newline>'') = Inl TypeError"
  unfolding preprocessor_def preprocessing_data_def Let_def ex_dataset
    generate_hierarchy_segment_print rng_print
    ex_untouched_index_labels ex_untouched_hierarchy ex_untouched_parents ex_untouched_buckets
    ex_untouched_max_length ex_untouched_rows ex_untouched_split rng_ex_world bind_err_simps prod.case
  by (simp add: ex_world_no_cache)

text \<open>Any bucket left as the empty list makes the loop of lines 143 to 148 raise.\<close>

lemma split_buckets_PyList:
  "PyList \<in> set segs \<Longrightarrow> \<exists>e. split_buckets rt segs g = Inl e"
  unfolding split_buckets_def
  by (rule fold_err_fails [where x = PyList]) (auto split: prod.splits)

text \<open>
  The same table with the tree file \<open>a > b\<close>, \<open>a > c\<close>, whose only parent both
  samples touch: preprocessing completes, writes the four artifacts and prints its two
  messages.
\<close>

lemma ex_touched_hierarchy:
  "generate_hierarchy_segment ex_self (ex_world ''a > b\<newline>a > c\<newline>'') = Inr [(''a'', [''b'', ''c''])]"
  by code_simp

lemma ex_touched_parents: "index_parents [(''a'', [''b'', ''c''])] = [(''a'', 0)]"
  by code_simp

lemma ex_touched_buckets: "replicate (length [(''a'', 0::nat)]) PyList = [PyList]"
  by simp

lemma ex_touched_rows:
  "fold_err (encode_row ex_self ex_runtime [(''a'', [''b'', ''c''])] [(''a'', 0)] 13)
     (rows ex_indexed) ([PyList], [], [])
   = Inr ([PyDict [replicate 13 0, replicate 13 0] [[0, 1], [1, 0]]],
          [replicate 13 0, replicate 13 0], [[1, 0], [0, 1]])"
  by code_simp

lemma ex_split_flat:
  "data_splitting ex_runtime [replicate 13 0, replicate 13 0] [[1, 0], [0, 1]] () =
     Inr ((Subset (Subset (TensorDataset [replicate 13 0, replicate 13 0] [[1, 0], [0, 1]]) [1, 0]) [1, 0],
           Subset (Subset (TensorDataset [replicate 13 0, replicate 13 0] [[1, 0], [0, 1]]) [1, 0]) [],
           Subset (TensorDataset [replicate 13 0, replicate 13 0] [[1, 0], [0, 1]]) []), ())"
proof -
  have p: "randperm ex_runtime 2 () = ([1, 0], ())"
    by (simp add: ex_runtime_def upt_rec)
  have "data_splitting ex_runtime [replicate 13 0, replicate 13 0] [[1, 0], [0, 1]] () =
     Inr ((Subset (Subset (TensorDataset [replicate 13 0, replicate 13 0] [[1, 0], [0, 1]])
                     (take 2 [1, 0])) (take 2 [1, 0]),
           Subset (Subset (TensorDataset [replicate 13 0, replicate 13 0] [[1, 0], [0, 1]])
                     (take 2 [1, 0])) (take (2 - 2) (drop 2 [1, 0])),
           Subset (TensorDataset [replicate 13 0, replicate 13 0] [[1, 0], [0, 1]])
             (take (2 - 2) (drop 2 [1, 0]))), ())"
    by (rule data_splitting_unfold [where ga = "()"]) (simp_all add: p sizes_2 sizes_2_09)
  then show ?thesis
    by simp
qed

lemma ex_touched_split:
  "split_buckets ex_runtime [PyDict [replicate 13 0, replicate 13 0] [[0, 1], [1, 0]]] ()
   = Inr ([(Subset (Subset (TensorDataset [replicate 13 0, replicate 13 0] [[0, 1], [1, 0]]) [1, 0]) [1, 0],
           Subset (Subset (TensorDataset [replicate 13 0, replicate 13 0] [[0, 1], [1, 0]]) [1, 0]) [],
           Subset (TensorDataset [replicate 13 0, replicate 13 0] [[0, 1], [1, 0]]) [])], ())"
  unfolding split_buckets_def fold_err.simps bucket.case prod.case ex_split_two bind_err_simps
  by simp

lemma every_parent_touched_completes:
  "\<exists>sets w. preprocessor ex_self ex_runtime (ex_world ''a > b\<newline>a > c\<newline>'') = Inr (sets, w)
     \<and> map fst (files w) = [''tree.txt'', ''datasets/hierarchical_dataset.pkl'',
          ''datasets/train_set.pt'', ''datasets/valid_set.pt'', ''datasets/test_set.pt'']
     \<and> stdout w = [''\<newline>Preprocessing Data...'', ''[ Preprocessing Completed ]\<newline>'']"
  unfolding preprocessor_def preprocessing_data_def Let_def ex_dataset
    generate_hierarchy_segment_print rng_print
    ex_untouched_index_labels ex_touched_hierarchy ex_touched_parents ex_touched_buckets
    ex_untouched_max_length ex_touched_rows ex_touched_split ex_split_flat rng_ex_world
    bind_err_simps prod.case
  by (simp add: path_exists_def torch_save_def print_def ex_world_def)

section \<open>The order of the children\<close>

text \<open>
  The tree file \<open>a > b\<close>, \<open>a > c\<close> with sets that iterate in reverse (an order
  Python allows): \<open>b\<close> is the first child encountered, and its 1 stands at index 1.
\<close>

theorem children_order_is_not_first_encounter:
  "iteration_ok (set_order ex_runtime)
   \<and> spec_children_in_order [''a > b\<newline>'', ''a > c\<newline>''] ''a'' = [''b'', ''c'']
   \<and> hierarchical_binary ex_runtime (segment_lines [''a > b\<newline>'', ''a > c\<newline>'']) ''a'' ''b''
       = Inr [0, 1]"
proof -
  have "spec_children_in_order [''a > b\<newline>'', ''a > c\<newline>''] ''a'' = [''b'', ''c'']"
    by code_simp
  moreover have "hierarchical_binary ex_runtime [(''a'', [''b'', ''c''])] ''a'' ''b'' = Inr [0, 1]"
    by code_simp
  moreover have "iteration_ok (set_order ex_runtime)"
    by (simp add: ex_runtime_def iteration_ok_rev)
  ultimately show ?thesis
    by (simp add: ex_segment_two_children)
qed

text \<open>
  C2, as the code has it. The children of a parent are kept in a \<open>set\<close>: it holds
  exactly the children encountered for that parent in the file, the list that the encoder
  indexes is a permutation of their first-encounter order, chosen by the iteration order of
  the set, and the index of the 1 is the position of the child in that list.
\<close>

theorem children_listing_is_a_permutation:
  assumes order: "iteration_ok (set_order rt)"
    and parent: "map_of (segment_lines tree) P = Some s"
  shows "set s = set (spec_children_in_order tree P)
       \<and> mset (set_order rt s) = mset (spec_children_in_order tree P)
       \<and> (\<forall>c v. hierarchical_binary rt (segment_lines tree) P c = Inr v \<longrightarrow>
            (\<exists>i. first_index (set_order rt s) c = Some i \<and> v = (replicate (length s) 0)[i := 1]))"
proof -
  have s: "s = spec_children_in_order tree P"
    using parent by (simp add: map_of_segment_lines split: if_splits)
  have d: "distinct s"
    using parent by (rule segment_lines_distinct)
  have m: "mset (set_order rt s) = mset s"
    using order d by (simp add: iteration_ok_def)
  have len: "length (set_order rt s) = length s"
    using order d by (rule iteration_ok_length)
  have "\<exists>i. first_index (set_order rt s) c = Some i \<and> v = (replicate (length s) 0)[i := 1]"
    if "hierarchical_binary rt (segment_lines tree) P c = Inr v" for c v
    using that len by (auto simp: hierarchical_binary_recorded [OF parent] split: option.splits)
  with s m show ?thesis
    by auto
qed

text \<open>The theorem at the tree file \<open>a > b\<close>, \<open>a > c\<close>.\<close>

theorem children_listing_is_a_permutation_witness:
  "iteration_ok (set_order ex_runtime)
   \<and> map_of (segment_lines [''a > b\<newline>'', ''a > c\<newline>'']) ''a'' = Some [''b'', ''c'']
   \<and> mset (set_order ex_runtime [''b'', ''c''])
       = mset (spec_children_in_order [''a > b\<newline>'', ''a > c\<newline>''] ''a'')
   \<and> set_order ex_runtime [''b'', ''c''] = [''c'', ''b'']"
proof -
  have order: "iteration_ok (set_order ex_runtime)"
    by (simp add: ex_runtime_def iteration_ok_rev)
  have parent: "map_of (segment_lines [''a > b\<newline>'', ''a > c\<newline>'']) ''a'' = Some [''b'', ''c'']"
    by (simp add: ex_segment_two_children)
  have "set_order ex_runtime [''b'', ''c''] = [''c'', ''b'']"
    by (simp add: ex_runtime_def)
  with children_listing_is_a_permutation [OF order parent] order parent show ?thesis
    by blast
qed

section \<open>The flat target\<close>

lemma first_index_append_in: "x \<in> set xs \<Longrightarrow> first_index (xs @ ys) x = first_index xs x"
  by (induction xs) auto

lemma first_index_append_out: "x \<notin> set xs \<Longrightarrow> first_index (xs @ [x]) x = Some (length xs)"
  by (induction xs) auto

lemma first_index_middle: "x \<notin> set xs \<Longrightarrow> first_index (xs @ x # ys) x = Some (length xs)"
  by (induction xs) auto

lemma fold_insert_new_prefix:
  "\<exists>zs. fold (\<lambda>x acc. if x \<in> set acc then acc else acc @ [x]) xs acc = acc @ zs"
proof (induction xs arbitrary: acc)
  case Nil
  then show ?case by simp
next
  case (Cons x xs)
  show ?case
  proof (cases "x \<in> set acc")
    case True
    with Cons.IH [of acc] show ?thesis by simp
  next
    case False
    from Cons.IH [of "acc @ [x]"] obtain zs where
      "fold (\<lambda>x acc. if x \<in> set acc then acc else acc @ [x]) xs (acc @ [x]) = acc @ x # zs"
      by auto
    with False show ?thesis by simp
  qed
qed

text \<open>
  The position of a value among the distinct values in first-seen order is the number of
  distinct values above its first occurrence.
\<close>

lemma first_index_unique:
  assumes "x \<in> set xs"
  shows "first_index (unique xs) x = Some (card (set (takeWhile (\<lambda>y. y \<noteq> x) xs)))"
proof -
  let ?pre = "takeWhile (\<lambda>y. y \<noteq> x) xs"
  from assms have "dropWhile (\<lambda>y. y \<noteq> x) xs \<noteq> []"
    by (auto simp: dropWhile_eq_Nil_conv)
  then obtain y rest where drop: "dropWhile (\<lambda>y. y \<noteq> x) xs = y # rest"
    by (cases "dropWhile (\<lambda>y. y \<noteq> x) xs") auto
  from hd_dropWhile [of "\<lambda>y. y \<noteq> x" xs] drop have "y = x"
    by simp
  with drop have xs: "xs = ?pre @ x # rest"
    using takeWhile_dropWhile_id [of "\<lambda>y. y \<noteq> x" xs] by simp
  have out: "x \<notin> set ?pre"
    by (auto dest: set_takeWhileD)
  then have out': "x \<notin> set (unique ?pre)"
    by (simp add: set_unique)
  have "unique xs = fold (\<lambda>x acc. if x \<in> set acc then acc else acc @ [x]) rest (unique ?pre @ [x])"
    using out' by (subst xs) (simp add: unique_def)
  with fold_insert_new_prefix [of rest "unique ?pre @ [x]"]
  obtain zs where "unique xs = unique ?pre @ x # zs"
    by auto
  with out' have "first_index (unique xs) x = Some (length (unique ?pre))"
    by (simp add: first_index_middle)
  moreover have "length (unique ?pre) = card (set ?pre)"
    using distinct_card [OF distinct_unique, of ?pre] by (simp add: set_unique)
  ultimately show ?thesis by simp
qed

lemma encode_row_flat:
  assumes "encode_row self rt h pidx m data (segs, ids, tgt) = Inr (segs', ids', tgt')"
  shows "\<exists>fb. flat_binary (num_classes self) data = Inr fb \<and> tgt' = tgt @ [fb]"
  using assms
  by (auto simp: encode_row_def bind_err_def Let_def split: sum.splits)

lemma fold_encode_row_flat:
  assumes "fold_err (encode_row self rt h pidx m) rs (segs, ids, tgt) = Inr (segs', ids', tgt')"
  shows "\<exists>fbs. tgt' = tgt @ fbs \<and> length fbs = length rs
           \<and> (\<forall>k < length rs. flat_binary (num_classes self) (rs ! k) = Inr (fbs ! k))"
  using assms
proof (induction rs arbitrary: segs ids tgt)
  case Nil
  then show ?case by simp
next
  case (Cons r rs)
  from Cons.prems obtain st where step: "encode_row self rt h pidx m r (segs, ids, tgt) = Inr st"
    and rest: "fold_err (encode_row self rt h pidx m) rs st = Inr (segs', ids', tgt')"
    by (cases "encode_row self rt h pidx m r (segs, ids, tgt)") simp_all
  obtain segs1 ids1 tgt1 where st: "st = (segs1, ids1, tgt1)"
    by (cases st) auto
  from encode_row_flat [OF step [unfolded st]] obtain fb where
    fb: "flat_binary (num_classes self) r = Inr fb" and tgt1: "tgt1 = tgt @ [fb]"
    by blast
  from Cons.IH [OF rest [unfolded st]] obtain fbs where all: "tgt' = tgt1 @ fbs"
    and len: "length fbs = length rs"
    and each: "\<forall>k < length rs. flat_binary (num_classes self) (rs ! k) = Inr (fbs ! k)"
    by blast
  have "flat_binary (num_classes self) ((r # rs) ! k) = Inr ((fb # fbs) ! k)"
    if "k < length (r # rs)" for k
    using that fb each by (cases k) simp_all
  moreover have "tgt' = tgt @ fb # fbs"
    by (simp add: all tgt1)
  ultimately show ?case
    using len by (intro exI [of _ "fb # fbs"]) simp
qed

lemma map_err_all:
  "(\<And>x. x \<in> set xs \<Longrightarrow> f x = Inr (g x)) \<Longrightarrow> map_err f xs = Inr (map g xs)"
  by (induction xs) simp_all

lemma label_index_Inr:
  "x \<in> set leaf \<Longrightarrow> label_index (unique leaf) x = Inr (CInt (int (spec_leaf_index leaf x)))"
  by (simp add: label_index_def first_index_unique spec_leaf_index_def)

lemma flat_binary_at_4:
  assumes "4 < length data" and "data ! 4 = CInt (int i)"
  shows "flat_binary n data =
           (if i < n then Inr ((replicate n 0)[i := 1]) else Inl IndexError)"
  using assms by (simp add: flat_binary_def getitem_def list_setitem_def)

lemma ex_stock_dataset: "dataset ex_stock_self = ex_stock_table"
  by (simp add: ex_stock_self_def)

lemma ex_stock_index_labels: "index_labels ex_stock_table = Inr ex_stock_indexed"
  by code_simp

lemma ex_stock_leaf_column:
  "df_column (dropna ex_stock_table) ''leaf'' = Inr [CStr ''b'', CStr ''c'']"
  by code_simp

lemma ex_stock_hierarchy:
  "generate_hierarchy_segment ex_stock_self (ex_world ''a > b\<newline>a > c\<newline>'')
     = Inr [(''a'', [''b'', ''c''])]"
  by code_simp

lemma ex_stock_max_length: "get_max_length ex_stock_indexed 10 = Inr 13"
  by code_simp

lemma ex_stock_rows:
  "fold_err (encode_row ex_stock_self ex_runtime [(''a'', [''b'', ''c''])] [(''a'', 0)] 13)
     (rows ex_stock_indexed) ([PyList], [], [])
   = Inr ([PyDict [replicate 13 0, replicate 13 0] [[0, 1], [1, 0]]],
          [replicate 13 0, replicate 13 0], [[0, 1], [1, 0]])"
  by code_simp

lemma ex_stock_run:
  "preprocessor ex_stock_self ex_runtime (ex_world ''a > b\<newline>a > c\<newline>'') =
     Inr ((Subset (Subset (TensorDataset [replicate 13 0, replicate 13 0] [[0, 1], [1, 0]]) [1, 0]) [1, 0],
           Subset (Subset (TensorDataset [replicate 13 0, replicate 13 0] [[0, 1], [1, 0]]) [1, 0]) [],
           Subset (TensorDataset [replicate 13 0, replicate 13 0] [[0, 1], [1, 0]]) []),
          print ''[ Preprocessing Completed ]\<newline>''
           ((torch_save (Subset (TensorDataset [replicate 13 0, replicate 13 0] [[0, 1], [1, 0]]) [])
               ''datasets/test_set.pt''
             (torch_save (Subset (Subset (TensorDataset [replicate 13 0, replicate 13 0] [[0, 1], [1, 0]]) [1, 0]) [])
               ''datasets/valid_set.pt''
               (torch_save (Subset (Subset (TensorDataset [replicate 13 0, replicate 13 0] [[0, 1], [1, 0]]) [1, 0]) [1, 0])
                 ''datasets/train_set.pt''
                 ((print ''\<newline>Preprocessing Data...'' (ex_world ''a > b\<newline>a > c\<newline>''))
                    \<lparr>files := dict_set ''datasets/hierarchical_dataset.pkl''
                       (Pickled [(Subset (Subset (TensorDataset [replicate 13 0, replicate 13 0] [[0, 1], [1, 0]]) [1, 0]) [1, 0],
           Subset (Subset (TensorDataset [replicate 13 0, replicate 13 0] [[0, 1], [1, 0]]) [1, 0]) [],
           Subset (TensorDataset [replicate 13 0, replicate 13 0] [[0, 1], [1, 0]]) [])])
                       (files (print ''\<newline>Preprocessing Data...'' (ex_world ''a > b\<newline>a > c\<newline>'')))\<rparr>))))
            \<lparr>rng := ()\<rparr>))"
  unfolding preprocessor_def preprocessing_data_def Let_def ex_stock_dataset
    generate_hierarchy_segment_print rng_print
    ex_stock_index_labels ex_stock_hierarchy ex_touched_parents ex_touched_buckets
    ex_stock_max_length ex_stock_rows ex_touched_split ex_split_two rng_ex_world
    bind_err_simps prod.case
  by (simp add: ex_world_no_cache)

lemma ex_stock_leaf_index_b: "spec_leaf_index [CStr ''b'', CStr ''c''] (CStr ''b'') = 0"
  by (simp add: spec_leaf_index_def)

lemma ex_stock_first_target: "flat_binary 2 (rows ex_stock_indexed ! 0) = Inr [0, 1]"
  by code_simp

lemma ex_stock_train:
  "examples (Subset (Subset (TensorDataset [replicate 13 0, replicate 13 0] [[0, 1], [1, 0]]) [1, 0]) [1, 0])
     = [(replicate 13 0, [0, 1]), (replicate 13 0, [1, 0])]
   \<and> base_indices (Subset (Subset (TensorDataset [replicate 13 0, replicate 13 0] [[0, 1], [1, 0]]) [1, 0]) [1, 0])
     = [0, 1]"
  by (simp add: upt_rec)

text \<open>
  The claim does not hold of every table. The table below has the five columns
  \<open>nama\<close>, \<open>root\<close>, \<open>leaf\<close>, \<open>path\<close>, \<open>stok\<close>, so line 103
  appends \<open>'label_idx'\<close> as the sixth and \<open>data[4]\<close> is the stock. Its first
  sample has the leaf \<open>b\<close>, whose index is 0, and the stock 1: the flat target built
  for it is \<open>[0, 1]\<close>, with the 1 at position 1. Preprocessing completes, and the
  training split holds this sample (row 0) with this target.
\<close>

theorem fifth_column_is_read_as_leaf_index:
  "df_column (dropna ex_stock_table) ''leaf'' = Inr [CStr ''b'', CStr ''c'']
   \<and> spec_leaf_index [CStr ''b'', CStr ''c''] (CStr ''b'') = 0
   \<and> index_labels ex_stock_table = Inr ex_stock_indexed
   \<and> flat_binary 2 (rows ex_stock_indexed ! 0) = Inr [0, 1]
   \<and> (\<exists>train valid test w.
         preprocessor ex_stock_self ex_runtime (ex_world ''a > b\<newline>a > c\<newline>'')
           = Inr ((train, valid, test), w)
       \<and> base_indices train = [0, 1]
       \<and> examples train = [(replicate 13 0, [0, 1]), (replicate 13 0, [1, 0])])"
  unfolding ex_stock_run
  using ex_stock_leaf_column ex_stock_leaf_index_b ex_stock_index_labels ex_stock_first_target
    ex_stock_train
  by blast

text \<open>
  C8, for a table in which the column \<open>'label_idx'\<close> is \<open>data[4]\<close>, the
  position the loop reads (it is the fifth column already, or the table has four columns
  and the assignment of line 103 appends it). Every row that survives \<open>dropna\<close>
  holds there the index of its leaf, which is the number of distinct leaves above the first
  row with this leaf; the flat target built from the row is the vector of
  \<open>num_classes\<close> entries with a single 1 at that index and 0 elsewhere, and an index
  beyond \<open>num_classes\<close> raises \<open>IndexError\<close> and builds nothing. When the
  loop over the rows returns, the flat targets it has collected are these vectors, one for
  every sample in the order of the rows. Leaf index 2 with five classes gives
  \<open>[0, 0, 1, 0, 0]\<close>.
\<close>

theorem flat_one_hot:
  assumes ok: "frame_ok ds0"
    and leaf_col: "''leaf'' \<in> set (columns ds0)"
    and at_4: "first_index (columns ds0 @ [''label_idx'']) ''label_idx'' = Some 4"
  shows "(\<exists>ds leaf. index_labels ds0 = Inr ds \<and> df_column (dropna ds0) ''leaf'' = Inr leaf
            \<and> length (rows ds) = length leaf
            \<and> (\<forall>k < length leaf.
                  getitem (rows ds ! k) 4 = Inr (CInt (int (spec_leaf_index leaf (leaf ! k))))
                \<and> (n \<le> spec_leaf_index leaf (leaf ! k) \<longrightarrow>
                      flat_binary n (rows ds ! k) = Inl IndexError)
                \<and> (spec_leaf_index leaf (leaf ! k) < n \<longrightarrow>
                      (\<exists>fb. flat_binary n (rows ds ! k) = Inr fb \<and> length fb = n
                         \<and> fb ! spec_leaf_index leaf (leaf ! k) = 1
                         \<and> (\<forall>j < n. j \<noteq> spec_leaf_index leaf (leaf ! k) \<longrightarrow> fb ! j = 0))))
            \<and> (\<forall>self rt h pidx m segs segs' ids' tgt'.
                  fold_err (encode_row self rt h pidx m) (rows ds) (segs, [], [])
                    = Inr (segs', ids', tgt') \<longrightarrow>
                  length tgt' = length leaf
                  \<and> (\<forall>k < length leaf.
                        length (tgt' ! k) = num_classes self
                      \<and> spec_leaf_index leaf (leaf ! k) < num_classes self
                      \<and> tgt' ! k ! spec_leaf_index leaf (leaf ! k) = 1
                      \<and> (\<forall>j < num_classes self.
                            j \<noteq> spec_leaf_index leaf (leaf ! k) \<longrightarrow> tgt' ! k ! j = 0))))
       \<and> flat_binary 5 [ca, cb, cc, cd, CInt 2] = Inr [0, 0, 1, 0, 0]"
proof -
  let ?ds1 = "dropna ds0"
  from leaf_col obtain li where li: "first_index (columns ds0) ''leaf'' = Some li"
    using first_index_mem by fastforce
  define leaf where "leaf = map (\<lambda>r. r ! li) (rows ?ds1)"
  define label_col where "label_col = map (\<lambda>x. CInt (int (spec_leaf_index leaf x))) leaf"
  define ds where "ds = df_setitem ?ds1 ''label_idx'' label_col"
  have col: "df_column ?ds1 ''leaf'' = Inr leaf"
    by (simp add: df_column_def dropna_def li leaf_def)
  have labels: "map_err (label_index (unique leaf)) leaf = Inr label_col"
    unfolding label_col_def by (rule map_err_all) (rule label_index_Inr)
  have built: "index_labels ds0 = Inr ds"
    by (simp add: index_labels_def Let_def col labels ds_def)
  have len_leaf: "length leaf = length (rows ?ds1)"
    by (simp add: leaf_def)
  have len_label: "length label_col = length (rows ?ds1)"
    by (simp add: label_col_def len_leaf)
  have wide: "length r = length (columns ds0)" if "r \<in> set (rows ?ds1)" for r
    using that ok by (auto simp: frame_ok_def dropna_def list_all_iff)
  have cell: "4 < length (rows ds ! k) \<and> rows ds ! k ! 4 = label_col ! k"
    if k: "k < length (rows ?ds1)" for k
  proof (cases "first_index (columns ds0) ''label_idx''")
    case None
    then have "''label_idx'' \<notin> set (columns ds0)"
      by (simp add: first_index_None)
    with at_4 have four: "length (columns ds0) = 4"
      by (simp add: first_index_append_out)
    have "rows ds ! k = (rows ?ds1 ! k) @ [label_col ! k]"
      using k len_label None by (simp add: ds_def df_setitem_def dropna_def)
    moreover have "length (rows ?ds1 ! k) = 4"
      using wide [of "rows ?ds1 ! k"] k four by simp
    ultimately show ?thesis
      by (simp add: nth_append)
  next
    case (Some j)
    then have "''label_idx'' \<in> set (columns ds0)"
      using first_index_None [of "columns ds0" "''label_idx''"] by auto
    with at_4 Some have j: "j = 4"
      by (simp add: first_index_append_in)
    from first_index_Some [OF Some] j have "4 < length (columns ds0)"
      by simp
    then have "4 < length (rows ?ds1 ! k)"
      using wide [of "rows ?ds1 ! k"] k by simp
    moreover have "rows ds ! k = (rows ?ds1 ! k)[4 := label_col ! k]"
      using k len_label Some j by (simp add: ds_def df_setitem_def dropna_def)
    ultimately show ?thesis
      by simp
  qed
  have len_rows: "length (rows ds) = length leaf"
    using len_label len_leaf
    by (cases "first_index (columns ds0) ''label_idx''")
      (simp_all add: ds_def df_setitem_def dropna_def)
  have at: "4 < length (rows ds ! k)
          \<and> rows ds ! k ! 4 = CInt (int (spec_leaf_index leaf (leaf ! k)))"
    if k: "k < length leaf" for k
    using cell [of k] k len_leaf by (simp add: label_col_def)
  have fb: "flat_binary n' (rows ds ! k) =
              (if spec_leaf_index leaf (leaf ! k) < n'
               then Inr ((replicate n' 0)[spec_leaf_index leaf (leaf ! k) := 1])
               else Inl IndexError)"
    if k: "k < length leaf" for k n'
    using at [OF k] by (simp add: flat_binary_at_4)
  have each: "getitem (rows ds ! k) 4 = Inr (CInt (int (spec_leaf_index leaf (leaf ! k))))
                \<and> (n \<le> spec_leaf_index leaf (leaf ! k) \<longrightarrow>
                      flat_binary n (rows ds ! k) = Inl IndexError)
                \<and> (spec_leaf_index leaf (leaf ! k) < n \<longrightarrow>
                      (\<exists>fb. flat_binary n (rows ds ! k) = Inr fb \<and> length fb = n
                         \<and> fb ! spec_leaf_index leaf (leaf ! k) = 1
                         \<and> (\<forall>j < n. j \<noteq> spec_leaf_index leaf (leaf ! k) \<longrightarrow> fb ! j = 0)))"
    if k: "k < length leaf" for k
    using at [OF k] fb [OF k, of n] by (simp add: getitem_def)
  have loop: "length tgt' = length leaf
                  \<and> (\<forall>k < length leaf.
                        length (tgt' ! k) = num_classes self
                      \<and> spec_leaf_index leaf (leaf ! k) < num_classes self
                      \<and> tgt' ! k ! spec_leaf_index leaf (leaf ! k) = 1
                      \<and> (\<forall>j < num_classes self.
                            j \<noteq> spec_leaf_index leaf (leaf ! k) \<longrightarrow> tgt' ! k ! j = 0))"
    if run: "fold_err (encode_row self rt h pidx m) (rows ds) (segs, [], [])
               = Inr (segs', ids', tgt')"
    for self :: Preprocessor and rt :: "'g runtime" and h pidx m segs segs' ids' tgt'
  proof -
    from fold_encode_row_flat [OF run] len_rows
    have len: "length tgt' = length leaf"
      and tg: "\<forall>k < length leaf. flat_binary (num_classes self) (rows ds ! k) = Inr (tgt' ! k)"
      by auto
    have "length (tgt' ! k) = num_classes self
                      \<and> spec_leaf_index leaf (leaf ! k) < num_classes self
                      \<and> tgt' ! k ! spec_leaf_index leaf (leaf ! k) = 1
                      \<and> (\<forall>j < num_classes self.
                            j \<noteq> spec_leaf_index leaf (leaf ! k) \<longrightarrow> tgt' ! k ! j = 0)"
      if k: "k < length leaf" for k
    proof -
      from tg k have r: "flat_binary (num_classes self) (rows ds ! k) = Inr (tgt' ! k)"
        by simp
      with fb [OF k, of "num_classes self"]
      have i: "spec_leaf_index leaf (leaf ! k) < num_classes self"
        by (auto split: if_splits)
      with r fb [OF k, of "num_classes self"]
      have "tgt' ! k = (replicate (num_classes self) 0)[spec_leaf_index leaf (leaf ! k) := 1]"
        by simp
      with i show ?thesis by simp
    qed
    with len show ?thesis by blast
  qed
  have ex: "flat_binary 5 [ca, cb, cc, cd, CInt 2] = Inr [0, 0, 1, 0, 0]"
    using flat_binary_at_4 [of "[ca, cb, cc, cd, CInt 2]" 2 5] by (simp add: numeral_eq_Suc)
  from built col len_rows each loop ex show ?thesis
    by blast
qed

lemma ex_index_labels: "index_labels ex_table = Inr ex_indexed"
  by code_simp

lemma ex_leaf_column: "df_column (dropna ex_table) ''leaf'' = Inr [CStr ''b'', CStr ''c'']"
  by code_simp

lemma ex_frame_ok: "frame_ok ex_table"
  by (simp add: frame_ok_def ex_table_def)

lemma ex_leaf_index_c: "spec_leaf_index [CStr ''b'', CStr ''c''] (CStr ''c'') = 1"
  by (simp add: spec_leaf_index_def)

text \<open>
  The theorem at the example table of four columns: its second row has the leaf \<open>c\<close>
  with the index 1, and its flat target is \<open>[0, 1]\<close>.
\<close>

theorem flat_one_hot_witness:
  "frame_ok ex_table \<and> ''leaf'' \<in> set (columns ex_table)
   \<and> first_index (columns ex_table @ [''label_idx'']) ''label_idx'' = Some 4
   \<and> index_labels ex_table = Inr ex_indexed
   \<and> df_column (dropna ex_table) ''leaf'' = Inr [CStr ''b'', CStr ''c'']
   \<and> spec_leaf_index [CStr ''b'', CStr ''c''] (CStr ''c'') = 1
   \<and> getitem (rows ex_indexed ! 1) 4 = Inr (CInt 1)
   \<and> (\<exists>fb. flat_binary 2 (rows ex_indexed ! 1) = Inr fb \<and> length fb = 2
          \<and> fb ! 1 = 1 \<and> fb ! 0 = 0)"
proof -
  have leaf_col: "''leaf'' \<in> set (columns ex_table)"
    by (simp add: ex_table_def)
  have at_4: "first_index (columns ex_table @ [''label_idx'']) ''label_idx'' = Some 4"
    by (simp add: ex_table_def)
  from flat_one_hot [OF ex_frame_ok leaf_col at_4, where n = 2, THEN conjunct1]
  obtain ds leaf where ds: "index_labels ex_table = Inr ds"
    and leaf: "df_column (dropna ex_table) ''leaf'' = Inr leaf"
    and each: "\<forall>k < length leaf.
                  getitem (rows ds ! k) 4 = Inr (CInt (int (spec_leaf_index leaf (leaf ! k))))
                \<and> (2 \<le> spec_leaf_index leaf (leaf ! k) \<longrightarrow>
                      flat_binary 2 (rows ds ! k) = Inl IndexError)
                \<and> (spec_leaf_index leaf (leaf ! k) < 2 \<longrightarrow>
                      (\<exists>fb. flat_binary 2 (rows ds ! k) = Inr fb \<and> length fb = 2
                         \<and> fb ! spec_leaf_index leaf (leaf ! k) = 1
                         \<and> (\<forall>j < 2. j \<noteq> spec_leaf_index leaf (leaf ! k) \<longrightarrow> fb ! j = 0)))"
    by blast
  from ds have ds_eq: "ds = ex_indexed"
    by (simp add: ex_index_labels)
  from leaf have leaf_eq: "leaf = [CStr ''b'', CStr ''c'']"
    by (simp add: ex_leaf_column)
  have k: "1 < length leaf" and at: "leaf ! 1 = CStr ''c''"
    by (simp_all add: leaf_eq)
  from each k have row: "getitem (rows ds ! 1) 4 = Inr (CInt (int (spec_leaf_index leaf (leaf ! 1))))
                \<and> (spec_leaf_index leaf (leaf ! 1) < 2 \<longrightarrow>
                      (\<exists>fb. flat_binary 2 (rows ds ! 1) = Inr fb \<and> length fb = 2
                         \<and> fb ! spec_leaf_index leaf (leaf ! 1) = 1
                         \<and> (\<forall>j < 2. j \<noteq> spec_leaf_index leaf (leaf ! 1) \<longrightarrow> fb ! j = 0)))"
    by blast
  have idx: "spec_leaf_index leaf (leaf ! 1) = 1"
    unfolding at unfolding leaf_eq by (rule ex_leaf_index_c)
  from row have cell: "getitem (rows ex_indexed ! 1) 4 = Inr (CInt 1)"
    unfolding idx ds_eq by simp
  from row obtain fb where fb: "flat_binary 2 (rows ex_indexed ! 1) = Inr fb"
    and len: "length fb = 2" and one: "fb ! 1 = 1" and rest: "\<forall>j < 2. j \<noteq> 1 \<longrightarrow> fb ! j = 0"
    unfolding idx ds_eq by auto
  from rest have "fb ! 0 = 0"
    by simp
  with fb len one have "\<exists>fb. flat_binary 2 (rows ex_indexed ! 1) = Inr fb \<and> length fb = 2
          \<and> fb ! 1 = 1 \<and> fb ! 0 = 0"
    by blast
  with ex_frame_ok leaf_col at_4 ex_index_labels ex_leaf_column ex_leaf_index_c cell
  show ?thesis
    by blast
qed

section \<open>The last character of every line\<close>

lemma split_sep_nonempty [simp]: "split_sep s \<noteq> []"
  by (induction s rule: split_sep.induct) (auto split: list.splits)

lemma split_sep_single_empty: "split_sep s = [[]] \<Longrightarrow> s = []"
  by (cases s) (auto split: if_splits list.splits)

lemma length_sep: "length sep = 3"
  by (simp add: sep_def)

lemma take3_butlast:
  assumes "take 3 s \<noteq> sep"
  shows "take 3 (butlast s) \<noteq> sep"
proof (cases "3 < length s")
  case True
  then have "take 3 (butlast s) = take 3 s"
    by (rule take_butlast)
  with assms show ?thesis by simp
next
  case False
  then have neq: "length (take 3 (butlast s)) \<noteq> length sep"
    unfolding length_sep by (cases s) auto
  show ?thesis
  proof
    assume "take 3 (butlast s) = sep"
    then have "length (take 3 (butlast s)) = length sep"
      by (rule arg_cong)
    with neq show False
      by simp
  qed
qed

lemma split_sep_butlast:
  "last (split_sep s) \<noteq> [] \<Longrightarrow>
   split_sep (butlast s) = butlast (split_sep s) @ [butlast (last (split_sep s))]"
proof (induction s rule: split_sep.induct)
  case 1
  then show ?case by simp
next
  case (2 c cs)
  show ?case
  proof (cases "take 3 (c # cs) = sep")
    case True
    let ?rest = "drop 3 (c # cs)"
    have split: "split_sep (c # cs) = [] # split_sep ?rest"
      using True by simp
    with "2.prems" have last_rest: "last (split_sep ?rest) \<noteq> []"
      by simp
    then have rest_ne: "?rest \<noteq> []"
      by auto
    have len: "length (c # cs) > 3"
      using rest_ne by auto
    have t: "take 3 (butlast (c # cs)) = sep"
      using True len take_butlast [of 3 "c # cs"] by simp
    have d: "drop 3 (butlast (c # cs)) = butlast ?rest"
      by (rule drop_butlast)
    have ne: "butlast (c # cs) \<noteq> []"
      using len by (cases cs) auto
    then obtain c' cs' where cons: "butlast (c # cs) = c' # cs'"
      by (cases "butlast (c # cs)") auto
    have "split_sep (butlast (c # cs)) = [] # split_sep (butlast ?rest)"
      using t d unfolding cons by simp
    also have "split_sep (butlast ?rest) =
        butlast (split_sep ?rest) @ [butlast (last (split_sep ?rest))]"
      using "2.IH"(1) [OF True last_rest] .
    finally show ?thesis
      using split by simp
  next
    case False
    obtain l ls where rec: "split_sep cs = l # ls"
      by (cases "split_sep cs") auto
    have split: "split_sep (c # cs) = (c # l) # ls"
      using False rec by simp
    show ?thesis
    proof (cases "cs = []")
      case True
      have "[c] \<noteq> sep"
        by (simp add: sep_def)
      with True show ?thesis by simp
    next
      case cs: False
      have "take 3 (butlast (c # cs)) \<noteq> sep"
        using False by (rule take3_butlast)
      then have head: "take 3 (c # butlast cs) \<noteq> sep"
        using cs by simp
      have last_cs: "last (split_sep cs) \<noteq> []"
      proof (cases "ls = []")
        case True
        with rec cs split_sep_single_empty [of cs] show ?thesis by auto
      next
        case False
        with "2.prems" split rec show ?thesis by simp
      qed
      have ih: "split_sep (butlast cs) = butlast (split_sep cs) @ [butlast (last (split_sep cs))]"
        using "2.IH"(2) [OF False last_cs] .
      have "split_sep (butlast (c # cs)) = split_sep (c # butlast cs)"
        using cs by simp
      also have "\<dots> = (case split_sep (butlast cs) of [] \<Rightarrow> [[c]] | l # ls \<Rightarrow> (c # l) # ls)"
        using head by simp
      finally show ?thesis
        using ih rec split last_cs by (cases "ls = []") auto
    qed
  qed
qed

lemma file_lines_last:
  "tree \<noteq> [] \<Longrightarrow> file_lines tree \<noteq> [] \<and> last (file_lines tree) \<noteq> []
     \<and> last (last (file_lines tree)) = last tree"
proof (induction tree)
  case Nil
  then show ?case by simp
next
  case (Cons c cs)
  show ?case
  proof (cases "cs = []")
    case True
    then show ?thesis by simp
  next
    case False
    with Cons.IH show ?thesis
      by (auto split: list.splits)
  qed
qed

lemma nodes_of_butlast:
  assumes "last (split_sep (lower path)) \<noteq> []"
  shows "nodes_of path =
           butlast (split_sep (lower path)) @ [butlast (last (split_sep (lower path)))]"
proof -
  have "lower (butlast path) = butlast (lower path)"
    by (simp add: lower_def map_butlast)
  with split_sep_butlast [OF assms] show ?thesis
    by (simp add: nodes_of_def)
qed

lemma line_pairs_last: "ys \<noteq> [] \<Longrightarrow> (last ys, x) \<in> set (line_pairs (ys @ [x]))"
proof (induction ys)
  case Nil
  then show ?case by simp
next
  case (Cons y ys)
  then show ?case
    by (cases ys) (auto simp: line_pairs_def)
qed

lemma recorded_children_pairs:
  "recorded_children (segment_lines tree) P = {c. (P, c) \<in> set (file_pairs tree)}"
  by (auto simp: recorded_children_def map_of_segment_lines spec_children_in_order_def
      set_unique image_iff)

text \<open>
  A last line that ends in the separator, \<open>x > a > \<close> without a newline: its node names
  are \<open>x\<close>, \<open>a\<close> and the empty name. The character dropped is the final space of the
  separator, so the nodes read are \<open>x\<close> and \<open>a >\<close>: no name is shortened, the
  second name grows and the empty last node is gone.
\<close>

theorem line_ending_in_separator:
  "file_lines ''x > a > '' = [''x > a > '']
   \<and> split_sep (lower ''x > a > '') = [''x'', ''a'', []]
   \<and> nodes_of ''x > a > '' = [''x'', ''a >'']
   \<and> segment_lines (file_lines ''x > a > '') = [(''x'', [''a >''])]"
  by code_simp

text \<open>
  C10, as the code has it. \<open>nodes_of\<close> drops the final character of every line before
  lowercasing and splitting. For a file whose last line does not end in a newline and whose
  last node name is not empty, the nodes read from that line are its nodes with the last
  name short of its final character, and when the line has two nodes or more the parsed
  map records the shortened name as a child of the node before it.
\<close>

theorem last_line_loses_a_character:
  assumes "tree \<noteq> []"
    and "last tree \<noteq> newline"
    and "line = last (file_lines tree)"
    and "ns = split_sep (lower line)"
    and "last ns \<noteq> []"
  shows "line \<noteq> [] \<and> last line \<noteq> newline
       \<and> nodes_of line = butlast ns @ [butlast (last ns)]
       \<and> (2 \<le> length ns \<longrightarrow>
            butlast (last ns) \<in> recorded_children (segment_lines (file_lines tree)) (last (butlast ns)))"
proof -
  from file_lines_last [OF assms(1)] assms(2,3)
  have line: "line \<noteq> []" "last line \<noteq> newline" "line \<in> set (file_lines tree)"
    by auto
  have nodes: "nodes_of line = butlast ns @ [butlast (last ns)]"
    using assms(4,5) nodes_of_butlast [of line] by simp
  have "butlast (last ns) \<in> recorded_children (segment_lines (file_lines tree)) (last (butlast ns))"
    if "2 \<le> length ns"
  proof -
    from that have "butlast ns \<noteq> []"
      by (cases ns rule: rev_cases) auto
    then have "(last (butlast ns), butlast (last ns)) \<in> set (line_pairs (nodes_of line))"
      unfolding nodes by (rule line_pairs_last)
    with line(3) have "(last (butlast ns), butlast (last ns)) \<in> set (file_pairs (file_lines tree))"
      by (auto simp: file_pairs_def)
    then show ?thesis
      by (simp add: recorded_children_pairs)
  qed
  with line(1,2) nodes show ?thesis
    by blast
qed

text \<open>The theorem at the file \<open>a > b\<close>, \<open>a > cd\<close> with no final newline.\<close>

theorem last_line_loses_a_character_witness:
  "''a > b\<newline>a > cd'' \<noteq> [] \<and> last ''a > b\<newline>a > cd'' \<noteq> newline
   \<and> last (file_lines ''a > b\<newline>a > cd'') = ''a > cd''
   \<and> split_sep (lower ''a > cd'') = [''a'', ''cd'']
   \<and> nodes_of ''a > cd'' = [''a'', ''c'']
   \<and> ''c'' \<in> recorded_children (segment_lines (file_lines ''a > b\<newline>a > cd'')) ''a''"
proof -
  have a: "''a > b\<newline>a > cd'' \<noteq> []"
    by simp
  have b: "last ''a > b\<newline>a > cd'' \<noteq> newline"
    by (simp add: newline_def)
  have c: "''a > cd'' = last (file_lines ''a > b\<newline>a > cd'')"
    by code_simp
  have d: "[''a'', ''cd''] = split_sep (lower ''a > cd'')"
    by code_simp
  have e: "last [''a'', ''cd''] \<noteq> []"
    by simp
  note t = last_line_loses_a_character [OF a b c d e]
  have pick: "''c'' \<in> S ''a''"
    if "2 \<le> length [''a'', ''cd''] \<longrightarrow> butlast (last [''a'', ''cd'']) \<in> S (last (butlast [''a'', ''cd'']))"
    for S :: "string \<Rightarrow> string set"
    using that by simp
  from t have "nodes_of ''a > cd'' = butlast [''a'', ''cd''] @ [butlast (last [''a'', ''cd''])]"
    by blast
  then have n: "nodes_of ''a > cd'' = [''a'', ''c'']"
    by simp
  from t have r: "''c'' \<in> recorded_children (segment_lines (file_lines ''a > b\<newline>a > cd'')) ''a''"
    by (intro pick) blast
  from a b c [symmetric] d [symmetric] n r show ?thesis
    by blast
qed

section \<open>The split is a partition\<close>

lemma mset_map_nth:
  assumes "mset p = mset [0..<length xs]"
  shows "mset (map ((!) xs) p) = mset xs"
proof -
  have "mset (map ((!) xs) p) = image_mset ((!) xs) (mset p)"
    by simp
  also have "\<dots> = image_mset ((!) xs) (mset [0..<length xs])"
    by (simp add: assms)
  also have "\<dots> = mset (map ((!) xs) [0..<length xs])"
    by simp
  also have "\<dots> = mset xs"
    by (simp add: map_nth)
  finally show ?thesis .
qed

lemma split_mset:
  assumes pa: "mset pa = mset [0..<length xs]"
    and pb: "mset pb = mset [0..<length (take tv pa)]"
  shows "mset (map ((!) (map ((!) xs) (take tv pa))) (take tr pb))
       + mset (map ((!) (map ((!) xs) (take tv pa))) (drop tr pb))
       + mset (map ((!) xs) (drop tv pa)) = mset xs"
proof -
  let ?a = "map ((!) xs) (take tv pa)"
  have "mset (map ((!) ?a) (take tr pb)) + mset (map ((!) ?a) (drop tr pb))
        = mset (map ((!) ?a) (take tr pb @ drop tr pb))"
    by (simp del: append_take_drop_id)
  also have "\<dots> = mset (map ((!) ?a) pb)"
    by simp
  also have "\<dots> = mset ?a"
    using pb by (intro mset_map_nth) simp
  finally have "mset (map ((!) ?a) (take tr pb)) + mset (map ((!) ?a) (drop tr pb))
       + mset (map ((!) xs) (drop tv pa)) = mset (map ((!) xs) (take tv pa @ drop tv pa))"
    by (simp del: append_take_drop_id)
  also have "\<dots> = mset xs"
    unfolding append_take_drop_id using pa by (rule mset_map_nth)
  finally show ?thesis .
qed

lemma randperm_okD:
  assumes "randperm_ok rp" and "rp n g = (p, g')"
  shows "mset p = mset [0..<n]" and "length p = n"
proof -
  from assms show m: "mset p = mset [0..<n]"
    unfolding randperm_ok_def by (metis fst_conv)
  from arg_cong [OF m, of size] show "length p = n"
    by simp
qed

lemma data_splitting_Inr_shape:
  assumes "data_splitting rt ids tgt g = Inr ((train_set, valid_set, test_set), g')"
  obtains pa ga pb tv tr where
    "length ids = length tgt"
    "randperm rt (length ids) g = (pa, ga)"
    "randperm rt (length (take tv pa)) ga = (pb, g')"
    "tv = py_round (fmul (float_of_nat (length ids)) c08)"
    "tr = py_round (fmul (float_of_nat (length (take tv pa))) c09)"
    "train_set = Subset (Subset (TensorDataset ids tgt) (take tv pa)) (take tr pb)"
    "valid_set = Subset (Subset (TensorDataset ids tgt) (take tv pa))
                   (take (length (take tv pa) - tr) (drop tr pb))"
    "test_set = Subset (TensorDataset ids tgt) (take (length ids - tv) (drop tv pa))"
proof -
  have a: "list_all (\<lambda>xs. length xs = length (hd ids)) ids"
    using assms by (auto simp: data_splitting_def torch_tensor_def split: if_splits)
  have b: "list_all (\<lambda>xs. length xs = length (hd tgt)) tgt"
    using assms a by (auto simp: data_splitting_def torch_tensor_def split: if_splits)
  have c: "length ids = length tgt"
    using assms a b by (auto simp: data_splitting_def torch_tensor_def tensor_dataset_def split: if_splits)
  obtain pa ga where pa: "randperm rt (length ids) g = (pa, ga)"
    by (cases "randperm rt (length ids) g")
  define tv where "tv = py_round (fmul (float_of_nat (length ids)) c08)"
  obtain pb gb where pb: "randperm rt (length (take tv pa)) ga = (pb, gb)"
    by (cases "randperm rt (length (take tv pa)) ga")
  define tr where "tr = py_round (fmul (float_of_nat (length (take tv pa))) c09)"
  note u = data_splitting_unfold [OF a b c refl pa tv_def [symmetric] refl pb tr_def [symmetric]]
  from u assms have "gb = g'"
    and "train_set = Subset (Subset (TensorDataset ids tgt) (take tv pa)) (take tr pb)"
    and "valid_set = Subset (Subset (TensorDataset ids tgt) (take tv pa))
                   (take (length (take tv pa) - tr) (drop tr pb))"
    and "test_set = Subset (TensorDataset ids tgt) (take (length ids - tv) (drop tv pa))"
    by simp_all
  with c pa pb tv_def tr_def that show thesis
    by blast
qed

lemma randperm_ok_ex: "randperm_ok (randperm ex_runtime)"
  by (simp add: randperm_ok_def ex_runtime_def)

lemma data_splitting_returns:
  assumes "list_all (\<lambda>xs. length xs = length (hd ids)) ids"
    and "list_all (\<lambda>xs. length xs = length (hd tgt)) tgt"
    and "length ids = length tgt"
  shows "\<exists>r. data_splitting rt ids tgt g = Inr r"
proof -
  obtain pa ga where pa: "randperm rt (length ids) g = (pa, ga)"
    by (cases "randperm rt (length ids) g")
  define tv where "tv = py_round (fmul (float_of_nat (length ids)) c08)"
  obtain pb gb where pb: "randperm rt (length (take tv pa)) ga = (pb, gb)"
    by (cases "randperm rt (length (take tv pa)) ga")
  from data_splitting_unfold [OF assms refl pa tv_def [symmetric] refl pb refl]
  show ?thesis
    by blast
qed

lemma sizes_10: "py_round (fmul (float_of_nat 10) c08) = 8"
  by (simp add: float_of_nat_def c08_def round_half_even_def Let_def)

lemma sizes_8: "py_round (fmul (float_of_nat 8) c09) = 7"
  by (simp add: float_of_nat_def c09_def round_half_even_def Let_def)

lemma ex_split_ten:
  "data_splitting ex_runtime ex_input_ids ex_target () =
     Inr ((Subset (Subset (TensorDataset ex_input_ids ex_target) [9, 8, 7, 6, 5, 4, 3, 2])
             [7, 6, 5, 4, 3, 2, 1],
           Subset (Subset (TensorDataset ex_input_ids ex_target) [9, 8, 7, 6, 5, 4, 3, 2]) [0],
           Subset (TensorDataset ex_input_ids ex_target) [1, 0]), ())"
proof -
  have pa: "rev [0..<10] = [9, 8, 7, 6, 5, 4, 3, 2, 1, 0::nat]"
    by code_simp
  have pb: "rev [0..<8] = [7, 6, 5, 4, 3, 2, 1, 0::nat]"
    by code_simp
  have "data_splitting ex_runtime ex_input_ids ex_target () =
     Inr ((Subset (Subset (TensorDataset ex_input_ids ex_target) (take 8 (rev [0..<10])))
             (take 7 (rev [0..<8])),
           Subset (Subset (TensorDataset ex_input_ids ex_target) (take 8 (rev [0..<10])))
             (take (8 - 7) (drop 7 (rev [0..<8]))),
           Subset (TensorDataset ex_input_ids ex_target) (take (10 - 8) (drop 8 (rev [0..<10])))), ())"
  proof (rule data_splitting_unfold [where ga = "()"])
    show "list_all (\<lambda>xs. length xs = length (hd ex_input_ids)) ex_input_ids"
      by (simp add: ex_input_ids_def)
    show "list_all (\<lambda>xs. length xs = length (hd ex_target)) ex_target"
      by (simp add: ex_target_def list_all_iff)
    show "length ex_input_ids = length ex_target"
      by (simp add: ex_input_ids_def ex_target_def)
    show "length ex_input_ids = 10"
      by (simp add: ex_input_ids_def)
    show "randperm ex_runtime 10 () = (rev [0..<10], ())"
      by (simp add: ex_runtime_def)
    show "py_round (fmul (float_of_nat 10) c08) = 8"
      by (rule sizes_10)
    show "length (take 8 (rev [0..<10])) = 8"
      by simp
    show "randperm ex_runtime 8 () = (rev [0..<8], ())"
      by (simp add: ex_runtime_def)
    show "py_round (fmul (float_of_nat 8) c09) = 7"
      by (rule sizes_8)
  qed
  then show ?thesis
    unfolding pa pb by simp
qed

lemma ex_base_indices:
  "base_indices (Subset (Subset (TensorDataset ex_input_ids ex_target) [9, 8, 7, 6, 5, 4, 3, 2])
             [7, 6, 5, 4, 3, 2, 1]) = [2, 3, 4, 5, 6, 7, 8]"
  "base_indices (Subset (Subset (TensorDataset ex_input_ids ex_target) [9, 8, 7, 6, 5, 4, 3, 2]) [0]) = [9]"
  "base_indices (Subset (TensorDataset ex_input_ids ex_target) [1, 0]) = [1, 0]"
  by code_simp+

text \<open>
  C4. For a generator that returns permutations: \<open>data_splitting\<close> returns whenever the
  two lists make tensors (rows of equal length, as many targets as inputs), and whenever it
  returns, the three sizes add up to the size of the collection, the three sets of original
  indices are pairwise disjoint, every index is selected exactly once, and the examples of
  the three subsets together are the examples of the collection, as multisets.
\<close>

theorem split_is_a_partition:
  assumes rp: "randperm_ok (randperm rt)"
  shows "(list_all (\<lambda>xs. length xs = length (hd input_ids)) input_ids
          \<and> list_all (\<lambda>xs. length xs = length (hd target)) target
          \<and> length input_ids = length target
          \<longrightarrow> (\<exists>r. data_splitting rt input_ids target g = Inr r))
       \<and> (\<forall>train_set valid_set test_set g'.
            data_splitting rt input_ids target g = Inr ((train_set, valid_set, test_set), g') \<longrightarrow>
              len train_set + len valid_set + len test_set = length input_ids
            \<and> set (base_indices train_set) \<inter> set (base_indices valid_set) = {}
            \<and> set (base_indices train_set) \<inter> set (base_indices test_set) = {}
            \<and> set (base_indices valid_set) \<inter> set (base_indices test_set) = {}
            \<and> mset (base_indices train_set) + mset (base_indices valid_set)
                + mset (base_indices test_set) = mset [0..<length input_ids]
            \<and> mset (examples train_set) + mset (examples valid_set) + mset (examples test_set)
                = mset (zip input_ids target))"
proof (intro conjI allI impI; (elim conjE)?)
  assume "list_all (\<lambda>xs. length xs = length (hd input_ids)) input_ids"
    and "list_all (\<lambda>xs. length xs = length (hd target)) target"
    and "length input_ids = length target"
  then show "\<exists>r. data_splitting rt input_ids target g = Inr r"
    by (rule data_splitting_returns)
next
  fix train_set valid_set test_set g'
  assume split: "data_splitting rt input_ids target g = Inr ((train_set, valid_set, test_set), g')"
  from split obtain pa ga pb tv tr where
    len: "length input_ids = length target"
    and pa: "randperm rt (length input_ids) g = (pa, ga)"
    and pb: "randperm rt (length (take tv pa)) ga = (pb, g')"
    and train: "train_set = Subset (Subset (TensorDataset input_ids target) (take tv pa)) (take tr pb)"
    and valid: "valid_set = Subset (Subset (TensorDataset input_ids target) (take tv pa))
                   (take (length (take tv pa) - tr) (drop tr pb))"
    and test: "test_set = Subset (TensorDataset input_ids target)
                   (take (length input_ids - tv) (drop tv pa))"
    by (rule data_splitting_Inr_shape)
  note ma = randperm_okD [OF rp pa]
  note mb = randperm_okD [OF rp pb]
  have dv: "take (length (take tv pa) - tr) (drop tr pb) = drop tr pb"
    using mb(2) by simp
  have dt: "take (length input_ids - tv) (drop tv pa) = drop tv pa"
    using ma(2) by simp
  show sizes: "len train_set + len valid_set + len test_set = length input_ids"
    unfolding train valid test dv dt using ma(2) mb(2) by simp
  show idx: "mset (base_indices train_set) + mset (base_indices valid_set)
               + mset (base_indices test_set) = mset [0..<length input_ids]"
    unfolding train valid test dv dt
    using split_mset [of pa "[0..<length input_ids]" pb tv tr] ma(1) mb(1)
    by simp
  show "mset (examples train_set) + mset (examples valid_set) + mset (examples test_set)
               = mset (zip input_ids target)"
    unfolding train valid test dv dt
    using split_mset [of pa "zip input_ids target" pb tv tr] ma(1) mb(1) len
    by simp
  have "mset (base_indices train_set @ base_indices valid_set @ base_indices test_set)
          = mset [0..<length input_ids]"
    using idx by (simp add: ac_simps)
  then have "distinct (base_indices train_set @ base_indices valid_set @ base_indices test_set)"
    by (metis distinct_upt mset_eq_imp_distinct_iff)
  then show "set (base_indices train_set) \<inter> set (base_indices valid_set) = {}"
    and "set (base_indices train_set) \<inter> set (base_indices test_set) = {}"
    and "set (base_indices valid_set) \<inter> set (base_indices test_set) = {}"
    by auto
qed

text \<open>The theorem at ten examples: seven, one and two of them.\<close>

theorem split_is_a_partition_witness:
  "randperm_ok (randperm ex_runtime)
   \<and> (\<exists>train_set valid_set test_set.
         data_splitting ex_runtime ex_input_ids ex_target () = Inr ((train_set, valid_set, test_set), ())
       \<and> base_indices train_set = [2, 3, 4, 5, 6, 7, 8]
       \<and> base_indices valid_set = [9]
       \<and> base_indices test_set = [1, 0]
       \<and> len train_set + len valid_set + len test_set = length ex_input_ids
       \<and> mset (examples train_set) + mset (examples valid_set) + mset (examples test_set)
           = mset (zip ex_input_ids ex_target))"
  using split_is_a_partition [OF randperm_ok_ex, of ex_input_ids ex_target "()"]
    randperm_ok_ex ex_split_ten ex_base_indices
  by blast

section \<open>The sizes of the split\<close>

text \<open>
  C3. For a collection of \<open>N\<close> examples (below \<open>2 ^ 48\<close>, which every collection
  that fits into memory is): train and valid together have \<open>round(0.8 \<times> N)\<close> examples
  and test has the rest; train has \<open>round(0.9 \<times> (train + valid))\<close> and valid the rest.
  The floating-point products of the source round as the exact products do, a tie
  (\<open>0.9 \<times> 5 = 4.5\<close>) going to the even neighbour.
\<close>

theorem split_sizes:
  assumes rp: "randperm_ok (randperm rt)"
    and small: "length input_ids < 2 ^ 48"
    and split: "data_splitting rt input_ids target g = Inr ((train_set, valid_set, test_set), g')"
  shows "len train_set + len valid_set = spec_round 4 5 (length input_ids)
       \<and> len test_set = length input_ids - spec_round 4 5 (length input_ids)
       \<and> len train_set = spec_round 9 10 (len train_set + len valid_set)
       \<and> len valid_set = (len train_set + len valid_set) - len train_set"
proof -
  from split obtain pa ga pb tv tr where
    pa: "randperm rt (length input_ids) g = (pa, ga)"
    and pb: "randperm rt (length (take tv pa)) ga = (pb, g')"
    and tv: "tv = py_round (fmul (float_of_nat (length input_ids)) c08)"
    and tr: "tr = py_round (fmul (float_of_nat (length (take tv pa))) c09)"
    and train: "train_set = Subset (Subset (TensorDataset input_ids target) (take tv pa)) (take tr pb)"
    and valid: "valid_set = Subset (Subset (TensorDataset input_ids target) (take tv pa))
                   (take (length (take tv pa) - tr) (drop tr pb))"
    and test: "test_set = Subset (TensorDataset input_ids target)
                   (take (length input_ids - tv) (drop tv pa))"
    by (rule data_splitting_Inr_shape)
  note la = randperm_okD(2) [OF rp pa]
  note lb = randperm_okD(2) [OF rp pb]
  have tv_eq: "tv = spec_round 4 5 (length input_ids)"
    unfolding tv using small by (rule round_08)
  have tv_le: "tv \<le> length input_ids"
    unfolding tv_eq by (rule spec_round_4_5_le)
  have m: "length (take tv pa) = tv"
    using la tv_le by simp
  have "tv < 2 ^ 48"
    using tv_le small by simp
  then have tr_eq: "tr = spec_round 9 10 tv"
    unfolding tr m by (rule round_09)
  have tr_le: "tr \<le> tv"
    unfolding tr_eq by (rule spec_round_9_10_le)
  have lt: "len train_set = tr"
    unfolding train using lb m tr_le by simp
  have lv: "len valid_set = tv - tr"
    unfolding valid using lb m tr_le by simp
  have le: "len test_set = length input_ids - tv"
    unfolding test using la tv_le by simp
  from lt lv le tr_le tv_le tv_eq tr_eq show ?thesis
    by simp
qed

lemma ex_split_hundred:
  "data_splitting ex_runtime (replicate 100 [0]) (replicate 100 [1]) () =
     Inr ((Subset (Subset (TensorDataset (replicate 100 [0]) (replicate 100 [1]))
                     (take 80 (rev [0..<100]))) (take 72 (rev [0..<80])),
           Subset (Subset (TensorDataset (replicate 100 [0]) (replicate 100 [1]))
                     (take 80 (rev [0..<100]))) (take (80 - 72) (drop 72 (rev [0..<80]))),
           Subset (TensorDataset (replicate 100 [0]) (replicate 100 [1]))
             (take (100 - 80) (drop 80 (rev [0..<100])))), ())"
proof (rule data_splitting_unfold [where ga = "()"])
  show "list_all (\<lambda>xs. length xs = length (hd (replicate 100 [0::int]))) (replicate 100 [0])"
    by (simp add: list_all_iff)
  show "list_all (\<lambda>xs. length xs = length (hd (replicate 100 [1::nat]))) (replicate 100 [1])"
    by (simp add: list_all_iff)
  show "length (replicate 100 [0::int]) = length (replicate 100 [1::nat])"
    by simp
  show "length (replicate 100 [0::int]) = 100"
    by simp
  show "randperm ex_runtime 100 () = (rev [0..<100], ())"
    by (simp add: ex_runtime_def)
  show "py_round (fmul (float_of_nat 100) c08) = 80"
    by (rule sizes_100)
  show "length (take 80 (rev [0..<100])) = 80"
    by simp
  show "randperm ex_runtime 80 () = (rev [0..<80], ())"
    by (simp add: ex_runtime_def)
  show "py_round (fmul (float_of_nat 80) c09) = 72"
    by (rule sizes_80)
qed

text \<open>The theorem at 100 examples: 72 for train, 8 for valid and 20 for test.\<close>

theorem split_sizes_witness:
  "randperm_ok (randperm ex_runtime) \<and> length (replicate 100 [0::int]) < 2 ^ 48
   \<and> (\<exists>train_set valid_set test_set g'.
         data_splitting ex_runtime (replicate 100 [0]) (replicate 100 [1]) ()
           = Inr ((train_set, valid_set, test_set), g')
         \<and> len train_set = 72 \<and> len valid_set = 8 \<and> len test_set = 20)"
proof -
  have small: "length (replicate 100 [0::int]) < 2 ^ 48"
    by simp
  have r80: "spec_round 4 5 100 = 80"
    by (simp add: spec_round_def)
  have r72: "spec_round 9 10 80 = 72"
    by (simp add: spec_round_def)
  note s = split_sizes [OF randperm_ok_ex small ex_split_hundred]
  from s have tvl: "len (Subset (Subset (TensorDataset (replicate 100 [0]) (replicate 100 [1]))
                     (take 80 (rev [0..<100]))) (take 72 (rev [0..<80])))
       + len (Subset (Subset (TensorDataset (replicate 100 [0]) (replicate 100 [1]))
                     (take 80 (rev [0..<100]))) (take (80 - 72) (drop 72 (rev [0..<80])))) = 80"
    unfolding length_replicate r80 by (rule conjunct1)
  from s have "len (Subset (Subset (TensorDataset (replicate 100 [0]) (replicate 100 [1]))
                     (take 80 (rev [0..<100]))) (take 72 (rev [0..<80]))) = 72"
    unfolding length_replicate r80 tvl r72 by blast
  moreover from s have "len (Subset (Subset (TensorDataset (replicate 100 [0]) (replicate 100 [1]))
                     (take 80 (rev [0..<100]))) (take (80 - 72) (drop 72 (rev [0..<80])))) = 8"
    unfolding length_replicate r80 tvl r72 by simp
  moreover from s have "len (Subset (TensorDataset (replicate 100 [0]) (replicate 100 [1]))
             (take (100 - 80) (drop 80 (rev [0..<100])))) = 20"
    unfolding length_replicate r80 tvl r72 by simp
  ultimately show ?thesis
    using randperm_ok_ex small ex_split_hundred by blast
qed

end

